theory Spec2Isabelle
  imports Main "HOL-Library.AList" "HOL-Library.Multiset"
begin

section \<open>Package cait: views, record loaders and the accession title index\<close>

text \<open>
  A shallow embedding of the Go package \<^verbatim>\<open>cait\<close> (view structures, \<^verbatim>\<open>NormalizeView\<close>,
  \<^verbatim>\<open>MakeSubjectList\<close>, \<^verbatim>\<open>MakeSubjectMap\<close>, \<^verbatim>\<open>MakeDigitalObjectMap\<close>,
  \<^verbatim>\<open>MakeAccessionTitleIndex\<close> and \<^verbatim>\<open>NavElementView.String\<close>).

  Conventions.
  \<^item> A Go \<^verbatim>\<open>string\<close> is a byte sequence: \<^typ>\<open>string\<close>.
  \<^item> A Go slice is a list; the nil slice and the empty slice are both \<^term>\<open>[]\<close>.
  \<^item> A value of type \<^verbatim>\<open>interface{}\<close> that came out of \<^verbatim>\<open>encoding/json\<close> is a \<open>json\<close> value;
    a Go \<^verbatim>\<open>map[string]interface{}\<close> is an association list read with \<^const>\<open>map_of\<close>.
  \<^item> Struct fields keep their Go names; where two structs share a field name the name
    carries a suffix: \<open>_a\<close> Accession, \<open>_s\<close> Subject, \<open>_o\<close> DigitalObject,
    \<open>_v\<close> NormalizedAccessionView, \<open>_dv\<close> NormalizedDigitalObjectView, \<open>_p\<close> the anonymous
    projection struct of \<^verbatim>\<open>MakeAccessionTitleIndex\<close>.
  \<^item> A call either panics or returns Go's pair of a value and an error; a nil pointer
    or nil map is \<^term>\<open>None\<close>, a nil error is \<^term>\<open>None\<close>, an error is its message.
\<close>

subsection \<open>Dynamic values\<close>

text \<open>
  What \<^verbatim>\<open>encoding/json\<close> stores into an \<^verbatim>\<open>interface{}\<close>: nil, bool, float64 (kept as the
  number's literal), string, \<^verbatim>\<open>[]interface{}\<close> and \<^verbatim>\<open>map[string]interface{}\<close>. The same type
  describes a JSON document as text, an object being its members in textual order.
\<close>

datatype json =
    JNull
  | JBool bool
  | JNumber string
  | JString string
  | JArray "json list"
  | JObject "(string \<times> json) list"

text \<open>
  \<^verbatim>\<open>fmt.Sprintf("%s", v)\<close> for an \<^verbatim>\<open>interface{}\<close>: a string prints as itself. What the verb
  prints for the other dynamic types (\<^verbatim>\<open>%!s(float64=1)\<close>, \<^verbatim>\<open>%!s(<nil>)\<close>, \<^verbatim>\<open>map[...]\<close>, ...)
  depends on float formatting and on the Go release (map order), so it is the
  parameter \<open>bad_verb\<close>.
\<close>

definition Sprintf_s :: "(json \<Rightarrow> string) \<Rightarrow> json \<Rightarrow> string" where
  "Sprintf_s bad_verb v = (case v of JString s \<Rightarrow> s | _ \<Rightarrow> bad_verb v)"

text \<open>
  Lines 106-108 of \<^verbatim>\<open>NormalizeView\<close>: \<^verbatim>\<open>kv := map[string]string{}; src, _ := json.Marshal(m);
  json.Unmarshal(src, &kv)\<close>, with both errors dropped. An object fills \<^verbatim>\<open>kv\<close> with one
  entry per key: the member itself when it is a string, and the zero string when it is
  not (the decoder reports a type error, which is dropped, and still stores the zero
  element; null leaves the zero element as it is). JSON null sets \<^verbatim>\<open>kv\<close> to nil and any
  other value leaves it empty: in both cases no key is found.
\<close>

definition Unmarshal_kv :: "json \<Rightarrow> (string \<rightharpoonup> string)" where
  "Unmarshal_kv m =
     (case m of
        JObject ms \<Rightarrow>
          (\<lambda>k. case map_of ms k of
                 None \<Rightarrow> None
               | Some (JString s) \<Rightarrow> Some s
               | Some _ \<Rightarrow> Some [])
      | _ \<Rightarrow> Map.empty)"

subsection \<open>Records\<close>

text \<open>
  Modelled from the spec: the declarations of \<^verbatim>\<open>Accession\<close>, \<^verbatim>\<open>Subject\<close>, \<^verbatim>\<open>DigitalObject\<close>,
  \<^verbatim>\<open>Extent\<close> and \<^verbatim>\<open>FileVersion\<close> are not among the source files. The fields are those the
  functions below read, typed as the data model of the spec gives them: \<^verbatim>\<open>Extents\<close> and
  \<^verbatim>\<open>FileVersions\<close> are sequences of records, \<^verbatim>\<open>Instances\<close> and \<^verbatim>\<open>Subjects\<close> are sequences of
  loosely typed containers (\<^verbatim>\<open>map[string]interface{}\<close>, as \<^verbatim>\<open>item["digital_object"]\<close>,
  \<^verbatim>\<open>json.Marshal(m)\<close> and \<^verbatim>\<open>fmt.Sprintf("%s", ref)\<close> use them).
\<close>

record Extent =
  PhysicalDetails :: string

record FileVersion =
  FileURI :: string

record Subject =
  URI_s :: string
  Title_s :: string

record DigitalObject =
  URI_o :: string
  Title_o :: string
  Publish_o :: bool
  FileVersions :: "FileVersion list"

record Accession =
  URI_a :: string
  Title_a :: string
  ContentDescription_a :: string
  ConditionDescription_a :: string
  AccessionDate_a :: string
  CreatedBy_a :: string
  CreateTime :: string
  LastModifiedBy_a :: string
  UserMTime :: string
  Extents_a :: "Extent list"
  Instances :: "(string \<times> json) list list"
  Subjects_a :: "(string \<times> json) list list"

record NormalizedDigitalObjectView =
  URI_dv :: string
  Title_dv :: string
  Publish_dv :: bool
  FileURIs :: "string list"

record NormalizedAccessionView =
  URI_v :: string
  Title_v :: string
  ContentDescription_v :: string
  ConditionDescription_v :: string
  Subjects_v :: "string list"
  Extents_v :: "string list"
  RelatedResources :: "string list"
  RelatedAccessions :: "string list"
  DigitalObjects :: "NormalizedDigitalObjectView list"
  LinkedAgents :: "string list"
  AccessionDate_v :: string
  CreatedBy_v :: string
  Created :: string
  LastModifiedBy_v :: string
  LastModified :: string

record NavElementView =
  ThisLabel :: string
  ThisURI :: string
  PrevURI :: string
  PrevLabel :: string
  NextURI :: string
  NextLabel :: string
  Weight :: int

subsection \<open>NormalizeView\<close>

text \<open>\<^verbatim>\<open>new(NormalizedDigitalObjectView)\<close> and \<^verbatim>\<open>new(NormalizedAccessionView)\<close>: all fields zero.\<close>

definition new_NormalizedDigitalObjectView :: NormalizedDigitalObjectView where
  "new_NormalizedDigitalObjectView =
     \<lparr>URI_dv = [], Title_dv = [], Publish_dv = False, FileURIs = []\<rparr>"

definition new_NormalizedAccessionView :: NormalizedAccessionView where
  "new_NormalizedAccessionView =
     \<lparr>URI_v = [], Title_v = [], ContentDescription_v = [], ConditionDescription_v = [],
      Subjects_v = [], Extents_v = [], RelatedResources = [], RelatedAccessions = [],
      DigitalObjects = [], LinkedAgents = [], AccessionDate_v = [], CreatedBy_v = [],
      Created = [], LastModifiedBy_v = [], LastModified = []\<rparr>"

text \<open>\<^verbatim>\<open>func (o *DigitalObject) NormalizeView()\<close>; the loop over \<^verbatim>\<open>o.FileVersions\<close> is a fold.\<close>

definition file_version_step ::
  "FileVersion \<Rightarrow> NormalizedDigitalObjectView \<Rightarrow> NormalizedDigitalObjectView" where
  "file_version_step fv result =
     (if FileURI fv \<noteq> [] then result\<lparr>FileURIs := FileURIs result @ [FileURI fv]\<rparr>
      else result)"

definition DigitalObject_NormalizeView :: "DigitalObject \<Rightarrow> NormalizedDigitalObjectView" where
  "DigitalObject_NormalizeView o' =
     fold file_version_step (FileVersions o')
       (new_NormalizedDigitalObjectView
          \<lparr>URI_dv := URI_o o', Title_dv := Title_o o', Publish_dv := Publish_o o'\<rparr>)"

text \<open>
  \<^verbatim>\<open>func (a *Accession) NormalizeView(subjects, digitalObjects)\<close>. The two maps hold
  records: every pointer stored by \<^verbatim>\<open>MakeSubjectMap\<close> and \<^verbatim>\<open>MakeDigitalObjectMap\<close> has been
  dereferenced before it is stored. \<^verbatim>\<open>subjects[k]\<close> of a missing key is the nil pointer,
  which the source tests with \<^verbatim>\<open>rec != nil\<close>.
\<close>

definition extent_step :: "Extent \<Rightarrow> NormalizedAccessionView \<Rightarrow> NormalizedAccessionView" where
  "extent_step extent v = v\<lparr>Extents_v := Extents_v v @ [PhysicalDetails extent]\<rparr>"

definition instance_step ::
  "(string \<rightharpoonup> DigitalObject) \<Rightarrow> (string \<times> json) list \<Rightarrow>
   NormalizedAccessionView \<Rightarrow> NormalizedAccessionView" where
  "instance_step digitalObjects item v =
     (case map_of item ''digital_object'' of
        None \<Rightarrow> v
      | Some m \<Rightarrow>
          (case Unmarshal_kv m ''ref'' of
             None \<Rightarrow> v
           | Some ref \<Rightarrow>
               (case digitalObjects ref of
                  None \<Rightarrow> v
                | Some obj \<Rightarrow>
                    v\<lparr>DigitalObjects := DigitalObjects v @ [DigitalObject_NormalizeView obj]\<rparr>)))"

definition subject_step ::
  "(json \<Rightarrow> string) \<Rightarrow> (string \<rightharpoonup> Subject) \<Rightarrow> (string \<times> json) list \<Rightarrow>
   NormalizedAccessionView \<Rightarrow> NormalizedAccessionView" where
  "subject_step bad_verb subjects item v =
     (case map_of item ''ref'' of
        None \<Rightarrow> v
      | Some ref \<Rightarrow>
          (case subjects (Sprintf_s bad_verb ref) of
             None \<Rightarrow> v
           | Some rec \<Rightarrow> v\<lparr>Subjects_v := Subjects_v v @ [Title_s rec]\<rparr>))"

definition NormalizeView ::
  "(json \<Rightarrow> string) \<Rightarrow> Accession \<Rightarrow> (string \<rightharpoonup> Subject) \<Rightarrow> (string \<rightharpoonup> DigitalObject) \<Rightarrow>
   NormalizedAccessionView option \<times> string option" where
  "NormalizeView bad_verb a subjects digitalObjects =
     (let v = new_NormalizedAccessionView
                \<lparr>Title_v := Title_a a, URI_v := URI_a a,
                 ContentDescription_v := ContentDescription_a a,
                 ConditionDescription_v := ConditionDescription_a a,
                 AccessionDate_v := AccessionDate_a a,
                 CreatedBy_v := CreatedBy_a a,
                 Created := CreateTime a,
                 LastModifiedBy_v := LastModifiedBy_a a,
                 LastModified := UserMTime a\<rparr>;
          v = fold extent_step (Extents_a a) v;
          v = fold (instance_step digitalObjects) (Instances a) v;
          v = fold (subject_step bad_verb subjects) (Subjects_a a) v
      in (Some v, None))"

text \<open>
  The reference an entry carries, as the two loops read it: for a \<^verbatim>\<open>Subjects\<close> entry the
  printed value under \<^verbatim>\<open>"ref"\<close>; for an \<^verbatim>\<open>Instances\<close> entry the \<^verbatim>\<open>"ref"\<close> of the re-decoded
  value under \<^verbatim>\<open>"digital_object"\<close>.
\<close>

definition subject_ref :: "(json \<Rightarrow> string) \<Rightarrow> (string \<times> json) list \<Rightarrow> string option" where
  "subject_ref bad_verb item = map_option (Sprintf_s bad_verb) (map_of item ''ref'')"

definition digital_object_ref :: "(string \<times> json) list \<Rightarrow> string option" where
  "digital_object_ref item =
     (case map_of item ''digital_object'' of
        None \<Rightarrow> None
      | Some m \<Rightarrow> Unmarshal_kv m ''ref'')"

subsection \<open>NavElementView.String\<close>

text \<open>
  \<^verbatim>\<open>strings.Trim(s, cutset)\<close> with an ASCII cutset: the leading and the trailing bytes that
  occur in the cutset are removed.
\<close>

definition Trim :: "string \<Rightarrow> string \<Rightarrow> string" where
  "Trim s cutset =
     rev (dropWhile (\<lambda>c. c \<in> set cutset) (rev (dropWhile (\<lambda>c. c \<in> set cutset) s)))"

definition NavElementView_String :: "NavElementView \<Rightarrow> string" where
  \<open>NavElementView_String nav =
     (let prev = (if PrevURI nav \<noteq> []
                  then ''<a class="prev-item" href="'' @ PrevURI nav @ ''" title="'' @
                       PrevLabel nav @ ''">prev</a>''
                  else []);
          this = (if ThisURI nav \<noteq> []
                  then ''<span class="this-item" data-uri="'' @ ThisURI nav @
                       ''" data-title="'' @ ThisLabel nav @ ''">'' @ ThisLabel nav @ ''</span>''
                  else []);
          next = (if NextURI nav \<noteq> []
                  then ''<a class="next-item" href="'' @ NextURI nav @ ''" title="'' @
                       NextLabel nav @ ''">next</a>''
                  else [])
      in Trim (prev @ '' '' @ this @ '' '' @ next) '' '')\<close>

text \<open>
  The three fragments on their own, and what joining the present ones with single
  spaces gives (the wording of the rendering contract, to compare with the function).
\<close>

definition prev_fragment :: "NavElementView \<Rightarrow> string" where
  \<open>prev_fragment nav =
     ''<a class="prev-item" href="'' @ PrevURI nav @ ''" title="'' @ PrevLabel nav @
     ''">prev</a>''\<close>

definition this_fragment :: "NavElementView \<Rightarrow> string" where
  \<open>this_fragment nav =
     ''<span class="this-item" data-uri="'' @ ThisURI nav @ ''" data-title="'' @
     ThisLabel nav @ ''">'' @ ThisLabel nav @ ''</span>''\<close>

definition next_fragment :: "NavElementView \<Rightarrow> string" where
  \<open>next_fragment nav =
     ''<a class="next-item" href="'' @ NextURI nav @ ''" title="'' @ NextLabel nav @
     ''">next</a>''\<close>

definition present_fragments :: "NavElementView \<Rightarrow> string list" where
  "present_fragments nav =
     (if PrevURI nav \<noteq> [] then [prev_fragment nav] else []) @
     (if ThisURI nav \<noteq> [] then [this_fragment nav] else []) @
     (if NextURI nav \<noteq> [] then [next_fragment nav] else [])"

fun join_single_spaces :: "string list \<Rightarrow> string" where
  "join_single_spaces [] = []"
| "join_single_spaces [x] = x"
| "join_single_spaces (x # y # ys) = x @ '' '' @ join_single_spaces (y # ys)"

text \<open>ASCII white space: space, tab, line feed, vertical tab, form feed, carriage return.\<close>

definition is_space :: "char \<Rightarrow> bool" where
  "is_space c = (c \<in> {CHR '' '', CHR 0x09, CHR 0x0A, CHR 0x0B, CHR 0x0C, CHR 0x0D})"

subsection \<open>Outcome of a call\<close>

datatype 'a outcome = Panic | Return 'a "string option"

subsection \<open>MakeSubjectList, MakeSubjectMap, MakeDigitalObjectMap\<close>

text \<open>
  What one directory entry gives to \<^verbatim>\<open>ioutil.ReadFile\<close> followed by
  \<^verbatim>\<open>json.Unmarshal(src, &rec)\<close>, \<^verbatim>\<open>rec\<close> being a pointer to a fresh record:
  \<^item> \<open>Unreadable err\<close>: \<^verbatim>\<open>ReadFile\<close> fails with \<open>err\<close>;
  \<^item> \<open>Unparsable err\<close>: \<^verbatim>\<open>Unmarshal\<close> fails with \<open>err\<close> (syntax or type error);
  \<^item> \<open>Null\<close>: the file holds the JSON literal \<^verbatim>\<open>null\<close>; \<^verbatim>\<open>Unmarshal\<close> returns no error
    and sets the pointer \<^verbatim>\<open>rec\<close> to nil;
  \<^item> \<open>Decoded r\<close>: \<^verbatim>\<open>Unmarshal\<close> returns no error and \<^verbatim>\<open>rec\<close> points to \<open>r\<close>.

  \<^verbatim>\<open>ioutil.ReadDir(dname)\<close> gives either its error or the entries; each entry comes with
  the path \<^verbatim>\<open>fname = path.Join(dname, finfo.Name())\<close> under which it is read.
\<close>

datatype 'r entry = Unreadable string | Unparsable string | Null | Decoded 'r

type_synonym 'r ReadDir = "string + (string \<times> 'r entry) list"

definition Cant :: string where
  "Cant = ''Can'' @ [CHR 0x27] @ ''t''"

fun MakeSubjectList_range ::
  "(string \<times> Subject entry) list \<Rightarrow> Subject option list \<Rightarrow> Subject option list outcome" where
  "MakeSubjectList_range [] subjects = Return subjects None"
| "MakeSubjectList_range ((fname, f) # dir) subjects =
     (case f of
        Unreadable err \<Rightarrow> Return [] (Some (Cant @ '' read '' @ fname @ '', '' @ err))
      | Unparsable err \<Rightarrow> Return [] (Some (Cant @ '' parse subject '' @ fname @ '', '' @ err))
      | Null \<Rightarrow> MakeSubjectList_range dir (subjects @ [None])
      | Decoded subject \<Rightarrow> MakeSubjectList_range dir (subjects @ [Some subject]))"

definition MakeSubjectList :: "string \<Rightarrow> Subject ReadDir \<Rightarrow> Subject option list outcome" where
  "MakeSubjectList dname ReadDir =
     (case ReadDir of
        Inl err \<Rightarrow> Return [] (Some (Cant @ '' read subjects from '' @ dname @ '', '' @ err))
      | Inr dir \<Rightarrow> MakeSubjectList_range dir [])"

text \<open>
  In the two map builders the record is dereferenced (\<^verbatim>\<open>subject.URI\<close>) to form the key:
  on a nil pointer that is a run-time panic.
\<close>

fun MakeSubjectMap_range ::
  "(string \<times> Subject entry) list \<Rightarrow> (string \<rightharpoonup> Subject) \<Rightarrow>
   (string \<rightharpoonup> Subject) option outcome" where
  "MakeSubjectMap_range [] subjects = Return (Some subjects) None"
| "MakeSubjectMap_range ((fname, f) # dir) subjects =
     (case f of
        Unreadable err \<Rightarrow> Return None (Some (Cant @ '' read '' @ fname @ '', '' @ err))
      | Unparsable err \<Rightarrow> Return None (Some (Cant @ '' parse subject '' @ fname @ '', '' @ err))
      | Null \<Rightarrow> Panic
      | Decoded subject \<Rightarrow> MakeSubjectMap_range dir (subjects(URI_s subject \<mapsto> subject)))"

definition MakeSubjectMap ::
  "string \<Rightarrow> Subject ReadDir \<Rightarrow> (string \<rightharpoonup> Subject) option outcome" where
  "MakeSubjectMap dname ReadDir =
     (case ReadDir of
        Inl err \<Rightarrow> Return None (Some (Cant @ '' read subjects from '' @ dname @ '', '' @ err))
      | Inr dir \<Rightarrow> MakeSubjectMap_range dir Map.empty)"

fun MakeDigitalObjectMap_range ::
  "(string \<times> DigitalObject entry) list \<Rightarrow> (string \<rightharpoonup> DigitalObject) \<Rightarrow>
   (string \<rightharpoonup> DigitalObject) option outcome" where
  "MakeDigitalObjectMap_range [] digitalObjects = Return (Some digitalObjects) None"
| "MakeDigitalObjectMap_range ((fname, f) # dir) digitalObjects =
     (case f of
        Unreadable err \<Rightarrow> Return None (Some (Cant @ '' read '' @ fname @ '', '' @ err))
      | Unparsable err \<Rightarrow> Return None (Some (Cant @ '' parse subject '' @ fname @ '', '' @ err))
      | Null \<Rightarrow> Panic
      | Decoded digitalObject \<Rightarrow>
          MakeDigitalObjectMap_range dir
            (digitalObjects(URI_o digitalObject \<mapsto> digitalObject)))"

definition MakeDigitalObjectMap ::
  "string \<Rightarrow> DigitalObject ReadDir \<Rightarrow> (string \<rightharpoonup> DigitalObject) option outcome" where
  "MakeDigitalObjectMap dname ReadDir =
     (case ReadDir of
        Inl err \<Rightarrow>
          Return None (Some (Cant @ '' read Digital Objects from '' @ dname @ '', '' @ err))
      | Inr dir \<Rightarrow> MakeDigitalObjectMap_range dir Map.empty)"

text \<open>An entry that makes the loaders return an error: unreadable or unparsable.\<close>

definition offending :: "'r entry \<Rightarrow> bool" where
  "offending f = (case f of Unreadable _ \<Rightarrow> True | Unparsable _ \<Rightarrow> True | _ \<Rightarrow> False)"

subsection \<open>MakeAccessionTitleIndex: decoding the projection\<close>

text \<open>
  The tree under \<^verbatim>\<open>dname\<close> is the sequence of paths that \<^verbatim>\<open>filepath.Walk\<close> hands to the
  callback (files and directories, in its order), each with what \<^verbatim>\<open>ioutil.ReadFile\<close>
  and the scanner of \<^verbatim>\<open>json.Unmarshal\<close> make of it:
  \<^item> \<open>ReadError\<close>: \<^verbatim>\<open>ReadFile\<close> fails (a directory, a missing root, no permission);
  \<^item> \<open>SyntaxError\<close>: the bytes are not JSON text; \<^verbatim>\<open>Unmarshal\<close> returns the error before it
    stores anything;
  \<^item> \<open>Document j\<close>: the bytes are the JSON text of \<open>j\<close>.
  The callback ignores its \<^verbatim>\<open>info\<close> and \<^verbatim>\<open>err\<close> arguments and always returns nil, so the
  walk visits every path.
\<close>

datatype content = ReadError | SyntaxError | Document json

record projection =
  Title_p :: string
  URI_p :: string
  JSONModel_p :: string

definition new_projection :: projection where
  "new_projection = \<lparr>Title_p = [], URI_p = [], JSONModel_p = []\<rparr>"

text \<open>
  \<^verbatim>\<open>encoding/json\<close> selects the struct field of an object key by the name in the field's
  tag, exactly or ignoring case. \<open>equalFold s t\<close> is its comparison of an ASCII field
  name \<open>s\<close> with a key \<open>t\<close>: ASCII letters match in either case, and the two letters
  outside ASCII that fold to \<^verbatim>\<open>s\<close> and \<^verbatim>\<open>k\<close> (U+017F, bytes C5 BF, and U+212A, bytes
  E2 84 AA) match these.
\<close>

definition ascii_upper :: "char \<Rightarrow> char" where
  "ascii_upper c =
     (let n = (of_char c :: nat) in if 97 \<le> n \<and> n \<le> 122 then char_of (n - 32) else c)"

fun equalFold :: "string \<Rightarrow> string \<Rightarrow> bool" where
  "equalFold [] t = (t = [])"
| "equalFold (sb # s) [] = False"
| "equalFold (sb # s) (tb # t) =
     (if (of_char tb :: nat) < 128 then ascii_upper sb = ascii_upper tb \<and> equalFold s t
      else if ascii_upper sb = CHR ''S''
      then (case t of
              t1 # t' \<Rightarrow> tb = CHR 0xC5 \<and> t1 = CHR 0xBF \<and> equalFold s t'
            | [] \<Rightarrow> False)
      else if ascii_upper sb = CHR ''K''
      then (case t of
              t1 # t2 # t' \<Rightarrow> tb = CHR 0xE2 \<and> t1 = CHR 0x84 \<and> t2 = CHR 0xAA \<and> equalFold s t'
            | _ \<Rightarrow> False)
      else False)"

text \<open>
  Storing one JSON value into a field of Go type \<^verbatim>\<open>string\<close>: a string is stored, null
  leaves the field as it is, anything else is a type error (\<^verbatim>\<open>UnmarshalTypeError\<close>) that
  the decoder remembers while it goes on with the next member. The Boolean is "an error
  has been remembered".
\<close>

definition store_string ::
  "json \<Rightarrow> (string \<Rightarrow> projection \<Rightarrow> projection) \<Rightarrow> bool \<times> projection \<Rightarrow> bool \<times> projection" where
  "store_string j set_field st =
     (case j of
        JString s \<Rightarrow> (fst st, set_field s (snd st))
      | JNull \<Rightarrow> st
      | _ \<Rightarrow> (True, snd st))"

definition store_member :: "string \<times> json \<Rightarrow> bool \<times> projection \<Rightarrow> bool \<times> projection" where
  "store_member kv st =
     (if equalFold ''title'' (fst kv)
      then store_string (snd kv) (\<lambda>s acc. acc\<lparr>Title_p := s\<rparr>) st
      else if equalFold ''uri'' (fst kv)
      then store_string (snd kv) (\<lambda>s acc. acc\<lparr>URI_p := s\<rparr>) st
      else if equalFold ''jsonmodel_type'' (fst kv)
      then store_string (snd kv) (\<lambda>s acc. acc\<lparr>JSONModel_p := s\<rparr>) st
      else st)"

text \<open>
  \<^verbatim>\<open>accession := new(struct {...}); err = json.Unmarshal(src, &accession)\<close>: the pair of
  "\<^verbatim>\<open>err != nil\<close>" and the pointer \<^verbatim>\<open>accession\<close> afterwards. The target is a pointer to a
  pointer, so the literal \<^verbatim>\<open>null\<close> sets \<^verbatim>\<open>accession\<close> to nil (without an error). An object
  is stored member by member; any other value is a type error that leaves the fresh
  struct untouched, and so does a syntax error.
\<close>

definition Unmarshal_projection :: "content \<Rightarrow> bool \<times> projection option" where
  "Unmarshal_projection src =
     (case src of
        Document JNull \<Rightarrow> (False, None)
      | Document (JObject ms) \<Rightarrow>
          (let st = fold store_member ms (False, new_projection) in (fst st, Some (snd st)))
      | _ \<Rightarrow> (True, Some new_projection))"

subsection \<open>MakeAccessionTitleIndex: the walk\<close>

definition HasSuffix :: "string \<Rightarrow> string \<Rightarrow> bool" where
  "HasSuffix s suffix =
     (length s \<ge> length suffix \<and> drop (length s - length suffix) s = suffix)"

definition new_NavElementView :: NavElementView where
  "new_NavElementView =
     \<lparr>ThisLabel = [], ThisURI = [], PrevURI = [], PrevLabel = [], NextURI = [],
      NextLabel = [], Weight = 0\<rparr>"

text \<open>
  The map \<^verbatim>\<open>titleIndex\<close> is an association list with one pair per key:
  \<^verbatim>\<open>titleIndex[k] = nav\<close> is \<^const>\<open>AList.update\<close>, \<^verbatim>\<open>titleIndex[k]\<close> is \<^const>\<open>map_of\<close>,
  \<^verbatim>\<open>len(titleIndex)\<close> is \<^const>\<open>length\<close>. Every stored pointer is a fresh
  \<^verbatim>\<open>new(NavElementView)\<close>, so no two keys share an element.

  The callback of \<^verbatim>\<open>filepath.Walk\<close> on one path, on the state \<^verbatim>\<open>(titleIndex, titlesWithURI)\<close>;
  \<^term>\<open>None\<close> is the panic of \<^verbatim>\<open>accession.JSONModel\<close> on a nil \<^verbatim>\<open>accession\<close>. After a read
  error the callback returns; after an \<^verbatim>\<open>Unmarshal\<close> error it only logs and goes on to
  test \<^verbatim>\<open>accession.JSONModel\<close>.
\<close>

type_synonym titleIndex = "(string \<times> NavElementView) list"

definition walkFn ::
  "string \<times> content \<Rightarrow> titleIndex \<times> string list \<Rightarrow> (titleIndex \<times> string list) option" where
  "walkFn pc st =
     (if HasSuffix (fst pc) ''.json''
      then (case snd pc of
              ReadError \<Rightarrow> Some st
            | src \<Rightarrow>
                (case snd (Unmarshal_projection src) of
                   None \<Rightarrow> None
                 | Some accession \<Rightarrow>
                     (if JSONModel_p accession = ''accession''
                      then (let nav = new_NavElementView
                                        \<lparr>ThisLabel := Title_p accession,
                                         ThisURI := URI_p accession\<rparr>
                            in Some (AList.update (URI_p accession) nav (fst st),
                                     snd st @ [Title_p accession @ ''|'' @ URI_p accession]))
                      else Some st)))
      else Some st)"

fun Walk ::
  "(string \<times> content) list \<Rightarrow> titleIndex \<times> string list \<Rightarrow>
   (titleIndex \<times> string list) option" where
  "Walk [] st = Some st"
| "Walk (pc # tree) st = (case walkFn pc st of None \<Rightarrow> None | Some st' \<Rightarrow> Walk tree st')"

subsection \<open>MakeAccessionTitleIndex: sorting and linking\<close>

text \<open>
  \<^verbatim>\<open>strings.LastIndex(s, "|")\<close>, the separator being one byte: the index of its last
  occurrence, or -1.
\<close>

fun LastIndexByte :: "string \<Rightarrow> char \<Rightarrow> int" where
  "LastIndexByte [] c = - 1"
| "LastIndexByte (x # xs) c =
     (let r = LastIndexByte xs c
      in if r \<ge> 0 then r + 1 else if x = c then 0 else - 1)"

definition extractURI :: "string \<Rightarrow> string" where
  "extractURI s = (let pos = LastIndexByte s (CHR ''|''); pos = pos + 1 in drop (nat pos) s)"

text \<open>
  Go's \<^verbatim>\<open>s < t\<close> on strings compares byte by byte, a proper prefix being smaller.
  \<^verbatim>\<open>sort.Strings\<close> sorts into increasing order; equal strings cannot be told apart, so
  the sorted slice is the one an insertion sort gives.
\<close>

fun string_less :: "string \<Rightarrow> string \<Rightarrow> bool" where
  "string_less s [] = False"
| "string_less [] (b # t) = True"
| "string_less (a # s) (b # t) =
     ((of_char a :: nat) < of_char b \<or> (a = b \<and> string_less s t))"

definition string_le :: "string \<Rightarrow> string \<Rightarrow> bool" where
  "string_le s t = (\<not> string_less t s)"

fun insert_String :: "string \<Rightarrow> string list \<Rightarrow> string list" where
  "insert_String x [] = [x]"
| "insert_String x (y # ys) =
     (if string_less y x then y # insert_String x ys else x # y # ys)"

definition sort_Strings :: "string list \<Rightarrow> string list" where
  "sort_Strings xs = foldr insert_String xs []"

text \<open>
  One iteration of the linking loop, at index \<open>i\<close> of the sorted \<^verbatim>\<open>titlesWithURI\<close>:
  the block under \<^verbatim>\<open>if i > 0\<close>, the block under \<^verbatim>\<open>if i < lastI\<close>, and the body that
  runs both when \<^verbatim>\<open>titleIndex[uri]\<close> exists. \<^verbatim>\<open>titleIndex[uri].PrevLabel = prev.ThisLabel\<close>
  changes the element stored under \<^verbatim>\<open>uri\<close> in place: \<^const>\<open>AList.map_entry\<close>.
\<close>

definition link_prev :: "string list \<Rightarrow> nat \<Rightarrow> string \<Rightarrow> titleIndex \<Rightarrow> titleIndex" where
  "link_prev titlesWithURI i uri titleIndex =
     (if i > 0
      then (let prevURI = extractURI (titlesWithURI ! (i - 1))
            in case map_of titleIndex prevURI of
                 None \<Rightarrow> titleIndex
               | Some prev \<Rightarrow>
                   AList.map_entry uri
                     (\<lambda>nav. nav\<lparr>PrevLabel := ThisLabel prev, PrevURI := ThisURI prev\<rparr>)
                     titleIndex)
      else titleIndex)"

definition link_next ::
  "string list \<Rightarrow> int \<Rightarrow> nat \<Rightarrow> string \<Rightarrow> titleIndex \<Rightarrow> titleIndex" where
  "link_next titlesWithURI lastI i uri titleIndex =
     (if int i < lastI
      then (let nextURI = extractURI (titlesWithURI ! (i + 1))
            in case map_of titleIndex nextURI of
                 None \<Rightarrow> titleIndex
               | Some next \<Rightarrow>
                   AList.map_entry uri
                     (\<lambda>nav. nav\<lparr>NextLabel := ThisLabel next, NextURI := ThisURI next\<rparr>)
                     titleIndex)
      else titleIndex)"

definition link_step :: "string list \<Rightarrow> int \<Rightarrow> nat \<Rightarrow> titleIndex \<Rightarrow> titleIndex" where
  "link_step titlesWithURI lastI i titleIndex =
     (let uri = extractURI (titlesWithURI ! i)
      in case map_of titleIndex uri of
           None \<Rightarrow> titleIndex
         | Some _ \<Rightarrow>
             link_next titlesWithURI lastI i uri (link_prev titlesWithURI i uri titleIndex))"

definition link_titles :: "string list \<Rightarrow> titleIndex \<Rightarrow> titleIndex" where
  "link_titles titlesWithURI titleIndex =
     fold (link_step titlesWithURI (int (length titlesWithURI) - 1))
       [0..<length titlesWithURI] titleIndex"

definition MakeAccessionTitleIndex :: "(string \<times> content) list \<Rightarrow> titleIndex option outcome" where
  "MakeAccessionTitleIndex tree =
     (case Walk tree ([], []) of
        None \<Rightarrow> Panic
      | Some (titleIndex, titlesWithURI) \<Rightarrow>
          if length titlesWithURI = 0 then Return None (Some ''No titles found'')
          else if length titleIndex = 0 then Return None (Some ''title index empty'')
          else Return (Some (link_titles (sort_Strings titlesWithURI) titleIndex)) None)"

text \<open>
  The accession projections that a walk records, in the order of the walk, as pairs
  of title and URI; and the composite key of such a pair.
\<close>

definition recorded :: "string \<times> content \<Rightarrow> (string \<times> string) option" where
  "recorded pc =
     (if HasSuffix (fst pc) ''.json'' \<and> snd pc \<noteq> ReadError
      then (case snd (Unmarshal_projection (snd pc)) of
              None \<Rightarrow> None
            | Some accession \<Rightarrow>
                if JSONModel_p accession = ''accession''
                then Some (Title_p accession, URI_p accession) else None)
      else None)"

definition accessions :: "(string \<times> content) list \<Rightarrow> (string \<times> string) list" where
  "accessions tree = List.map_filter recorded tree"

definition composite :: "string \<times> string \<Rightarrow> string" where
  "composite tu = fst tu @ ''|'' @ snd tu"

text \<open>
  Byte-wise lexicographic order in words: \<open>s\<close> comes before \<open>t\<close> when \<open>s\<close> is a proper
  prefix of \<open>t\<close>, or when at the first position where they differ the byte of \<open>s\<close> is the
  smaller one.
\<close>

definition lexicographic :: "string \<Rightarrow> string \<Rightarrow> bool" where
  "lexicographic s t =
     ((\<exists>r. r \<noteq> [] \<and> t = s @ r) \<or>
      (\<exists>p c d s' t'. s = p @ c # s' \<and> t = p @ d # t' \<and> (of_char c :: nat) < of_char d))"

text \<open>
  The recorded accessions arranged by their composite keys: the same insertion sort,
  on the pairs instead of the key strings.
\<close>

fun insert_accession ::
  "string \<times> string \<Rightarrow> (string \<times> string) list \<Rightarrow> (string \<times> string) list" where
  "insert_accession x [] = [x]"
| "insert_accession x (y # ys) =
     (if string_less (composite y) (composite x) then y # insert_accession x ys
      else x # y # ys)"

definition sorted_accessions :: "(string \<times> content) list \<Rightarrow> (string \<times> string) list" where
  "sorted_accessions tree = foldr insert_accession (accessions tree) []"

text \<open>What the callback does with a recorded accession.\<close>

definition record_accession ::
  "string \<times> string \<Rightarrow> titleIndex \<times> string list \<Rightarrow> titleIndex \<times> string list" where
  "record_accession tu st =
     (AList.update (snd tu) (new_NavElementView\<lparr>ThisLabel := fst tu, ThisURI := snd tu\<rparr>)
        (fst st),
      snd st @ [composite tu])"

text \<open>A JSON document with the three members of an accession projection.\<close>

definition accession_document :: "string \<Rightarrow> string \<Rightarrow> content" where
  "accession_document title uri =
     Document (JObject [(''title'', JString title), (''uri'', JString uri),
                        (''jsonmodel_type'', JString ''accession'')])"

text \<open>
  The index as the walk leaves it: every element stored under its own \<^verbatim>\<open>ThisURI\<close>, with no
  link set yet.
\<close>

definition fresh_index :: "titleIndex \<Rightarrow> bool" where
  "fresh_index idx =
     (\<forall>k nav. map_of idx k = Some nav \<longrightarrow>
        ThisURI nav = k \<and> PrevURI nav = [] \<and> NextURI nav = [] \<and>
        PrevLabel nav = [] \<and> NextLabel nav = [])"

text \<open>
  A walk over three accessions titled A, A, B with the URIs /u2, /u1, /u3, a subject
  record and the directories that hold them.
\<close>

definition example_tree :: "(string \<times> content) list" where
  "example_tree =
     [(''data'', ReadError),
      (''data/accessions'', ReadError),
      (''data/accessions/1.json'', accession_document ''A'' ''/u2''),
      (''data/accessions/2.json'', accession_document ''A'' ''/u1''),
      (''data/accessions/3.json'', accession_document ''B'' ''/u3''),
      (''data/subjects'', ReadError),
      (''data/subjects/1.json'',
       Document (JObject [(''title'', JString ''Physics''), (''uri'', JString ''/subjects/1''),
                          (''jsonmodel_type'', JString ''subject'')]))]"

subsection \<open>Resolved references\<close>

text \<open>
  The entries of \<^verbatim>\<open>Subjects\<close> and \<^verbatim>\<open>Instances\<close> whose reference is a key of the map, in
  source order, each as the reference with the record it resolves to.
\<close>

definition resolved_subjects ::
  "(json \<Rightarrow> string) \<Rightarrow> (string \<rightharpoonup> Subject) \<Rightarrow> (string \<times> json) list list \<Rightarrow>
   (string \<times> Subject) list" where
  "resolved_subjects bad_verb subjects items =
     List.map_filter
       (\<lambda>item. case subject_ref bad_verb item of
                 None \<Rightarrow> None
               | Some r \<Rightarrow> map_option (Pair r) (subjects r)) items"

definition resolved_digital_objects ::
  "(string \<rightharpoonup> DigitalObject) \<Rightarrow> (string \<times> json) list list \<Rightarrow>
   (string \<times> DigitalObject) list" where
  "resolved_digital_objects digitalObjects items =
     List.map_filter
       (\<lambda>item. case digital_object_ref item of
                 None \<Rightarrow> None
               | Some r \<Rightarrow> map_option (Pair r) (digitalObjects r)) items"

subsection \<open>Example records\<close>

text \<open>
  Inputs for the closed instances below. Every reference in them is a string, so the
  printing of other dynamic values is never asked for; \<open>other_verb\<close> stands for it.
\<close>

definition other_verb :: "json \<Rightarrow> string" where
  "other_verb v = ''%!s(other)''"

definition example_subjects :: "string \<rightharpoonup> Subject" where
  "example_subjects =
     [''/subjects/1'' \<mapsto> \<lparr>URI_s = ''/subjects/1'', Title_s = ''Physics''\<rparr>,
      ''/subjects/2'' \<mapsto> \<lparr>URI_s = ''/subjects/2'', Title_s = ''Chemistry''\<rparr>]"

definition example_digitalObjects :: "string \<rightharpoonup> DigitalObject" where
  "example_digitalObjects =
     [''/digital_objects/7'' \<mapsto>
        \<lparr>URI_o = ''/digital_objects/7'', Title_o = ''Photograph'', Publish_o = True,
         FileVersions = [\<lparr>FileURI = ''http://files/7a.jpg''\<rparr>, \<lparr>FileURI = []\<rparr>,
                         \<lparr>FileURI = ''http://files/7b.jpg''\<rparr>]\<rparr>]"

definition example_accession :: "(string \<times> json) list list \<Rightarrow> Accession" where
  "example_accession subjects =
     \<lparr>URI_a = ''/repositories/2/accessions/1'', Title_a = ''Papers'',
      ContentDescription_a = ''Letters'', ConditionDescription_a = ''Good'',
      AccessionDate_a = ''2016-01-01'', CreatedBy_a = ''admin'',
      CreateTime = ''2016-01-02'', LastModifiedBy_a = ''admin'', UserMTime = ''2016-01-03'',
      Extents_a = [\<lparr>PhysicalDetails = ''2 boxes''\<rparr>],
      Instances =
        [[(''instance_type'', JString ''digital_object''),
          (''digital_object'', JObject [(''ref'', JString ''/digital_objects/7'')])],
         [(''instance_type'', JString ''text'')]],
      Subjects_a = subjects\<rparr>"

section \<open>Properties of NormalizeView\<close>

lemma fold_file_version_step:
  "FileURIs (fold file_version_step fvs r) =
     FileURIs r @ filter (\<lambda>u. u \<noteq> []) (map FileURI fvs)"
  by (induction fvs arbitrary: r) (simp_all add: file_version_step_def)

lemma FileURIs_NormalizeView:
  "FileURIs (DigitalObject_NormalizeView obj) =
     filter (\<lambda>u. u \<noteq> []) (map FileURI (FileVersions obj))"
  by (simp add: DigitalObject_NormalizeView_def fold_file_version_step
      new_NormalizedDigitalObjectView_def)

lemma fold_extent_step:
  "Subjects_v (fold extent_step es v) = Subjects_v v"
  "DigitalObjects (fold extent_step es v) = DigitalObjects v"
  by (induction es arbitrary: v) (simp_all add: extent_step_def)

lemma fold_instance_step:
  "Subjects_v (fold (instance_step dos) items v) = Subjects_v v"
  "DigitalObjects (fold (instance_step dos) items v) =
     DigitalObjects v @
     map (\<lambda>p. DigitalObject_NormalizeView (snd p)) (resolved_digital_objects dos items)"
  by (induction items arbitrary: v)
    (simp_all add: instance_step_def resolved_digital_objects_def digital_object_ref_def
      List.map_filter_simps split: option.splits)

lemma fold_subject_step:
  "DigitalObjects (fold (subject_step bv subjects) items v) = DigitalObjects v"
  "Subjects_v (fold (subject_step bv subjects) items v) =
     Subjects_v v @ map (\<lambda>p. Title_s (snd p)) (resolved_subjects bv subjects items)"
  by (induction items arbitrary: v)
    (simp_all add: subject_step_def resolved_subjects_def subject_ref_def
      List.map_filter_simps split: option.splits)

lemma NormalizeView_lists:
  "NormalizeView bv a subjects dos = (Some v, None) \<Longrightarrow>
     Subjects_v v =
       map (\<lambda>p. Title_s (snd p)) (resolved_subjects bv subjects (Subjects_a a)) \<and>
     DigitalObjects v =
       map (\<lambda>p. DigitalObject_NormalizeView (snd p))
         (resolved_digital_objects dos (Instances a))"
  by (auto simp: NormalizeView_def Let_def fold_subject_step fold_instance_step
      fold_extent_step new_NormalizedAccessionView_def)

lemma NormalizeView_returns:
  "\<exists>v. NormalizeView bv a subjects dos = (Some v, None)"
  by (simp add: NormalizeView_def Let_def)

lemma resolved_subjects_all:
  "\<forall>item \<in> set items. \<forall>r. subject_ref bv item = Some r \<longrightarrow> r \<in> dom subjects \<Longrightarrow>
   resolved_subjects bv subjects items =
     map (\<lambda>r. (r, the (subjects r))) (List.map_filter (subject_ref bv) items)"
  by (induction items)
    (auto simp: resolved_subjects_def List.map_filter_simps split: option.splits)

lemma resolved_digital_objects_all:
  "\<forall>item \<in> set items. \<forall>r. digital_object_ref item = Some r \<longrightarrow> r \<in> dom dos \<Longrightarrow>
   resolved_digital_objects dos items =
     map (\<lambda>r. (r, the (dos r))) (List.map_filter digital_object_ref items)"
  by (induction items)
    (auto simp: resolved_digital_objects_def List.map_filter_simps split: option.splits)

lemma resolved_subjects_remove:
  "resolved_subjects bv (subjects(k := None)) items =
     filter (\<lambda>p. fst p \<noteq> k) (resolved_subjects bv subjects items)"
  by (induction items)
    (auto simp: resolved_subjects_def List.map_filter_simps split: option.splits)

lemma subject_step_skips:
  "subject_ref bv item = None \<or> (\<exists>r. subject_ref bv item = Some r \<and> subjects r = None) \<Longrightarrow>
   subject_step bv subjects item w = w"
  by (auto simp: subject_step_def subject_ref_def split: option.splits)

lemma instance_step_skips:
  "digital_object_ref item = None \<or> (\<exists>r. digital_object_ref item = Some r \<and> dos r = None) \<Longrightarrow>
   instance_step dos item w = w"
  by (auto simp: instance_step_def digital_object_ref_def split: option.splits)

lemmas example_defs = example_accession_def example_subjects_def example_digitalObjects_def
  subject_ref_def digital_object_ref_def Sprintf_s_def Unmarshal_kv_def List.map_filter_simps

text \<open>
  C5. When every reference of the accession's \<^verbatim>\<open>Subjects\<close> and \<^verbatim>\<open>Instances\<close> is a key of
  the map it is looked up in, the view lists exactly the title of each referenced subject
  and the normalized view of each referenced digital object, one per reference and in
  source order; and the \<^verbatim>\<open>FileURIs\<close> of a normalized digital object are the non-empty file
  URIs of its file versions, in source order.
\<close>

theorem NormalizeView_resolvable:
  assumes "\<forall>item \<in> set (Subjects_a a). \<forall>r. subject_ref bad_verb item = Some r \<longrightarrow>
             r \<in> dom subjects"
    and "\<forall>item \<in> set (Instances a). \<forall>r. digital_object_ref item = Some r \<longrightarrow>
             r \<in> dom digitalObjects"
  shows "\<exists>v. NormalizeView bad_verb a subjects digitalObjects = (Some v, None) \<and>
           Subjects_v v =
             map (\<lambda>r. Title_s (the (subjects r)))
               (List.map_filter (subject_ref bad_verb) (Subjects_a a)) \<and>
           DigitalObjects v =
             map (\<lambda>r. DigitalObject_NormalizeView (the (digitalObjects r)))
               (List.map_filter digital_object_ref (Instances a)) \<and>
           (\<forall>obj. FileURIs (DigitalObject_NormalizeView obj) =
                    filter (\<lambda>u. u \<noteq> []) (map FileURI (FileVersions obj)))"
proof -
  obtain v where v: "NormalizeView bad_verb a subjects digitalObjects = (Some v, None)"
    using NormalizeView_returns by blast
  from NormalizeView_lists[OF v] resolved_subjects_all[OF assms(1)]
    resolved_digital_objects_all[OF assms(2)]
  have "Subjects_v v =
          map (\<lambda>r. Title_s (the (subjects r)))
            (List.map_filter (subject_ref bad_verb) (Subjects_a a))"
    and "DigitalObjects v =
          map (\<lambda>r. DigitalObject_NormalizeView (the (digitalObjects r)))
            (List.map_filter digital_object_ref (Instances a))"
    by (simp_all add: comp_def)
  with v show ?thesis by (simp add: FileURIs_NormalizeView)
qed

theorem NormalizeView_resolvable_witness:
  "\<exists>v. NormalizeView other_verb
          (example_accession [[(''ref'', JString ''/subjects/2'')], [(''ref'', JString ''/subjects/1'')]])
          example_subjects example_digitalObjects = (Some v, None) \<and>
       Subjects_v v = [''Chemistry'', ''Physics''] \<and>
       map FileURIs (DigitalObjects v) = [[''http://files/7a.jpg'', ''http://files/7b.jpg'']]"
proof -
  let ?a = "example_accession [[(''ref'', JString ''/subjects/2'')], [(''ref'', JString ''/subjects/1'')]]"
  have h1: "\<forall>item \<in> set (Subjects_a ?a). \<forall>r. subject_ref other_verb item = Some r \<longrightarrow>
             r \<in> dom example_subjects"
    by (simp add: example_defs)
  have h2: "\<forall>item \<in> set (Instances ?a). \<forall>r. digital_object_ref item = Some r \<longrightarrow>
             r \<in> dom example_digitalObjects"
    by (simp add: example_defs)
  have s: "map (\<lambda>r. Title_s (the (example_subjects r)))
               (List.map_filter (subject_ref other_verb) (Subjects_a ?a)) = [''Chemistry'', ''Physics'']"
    by (simp add: example_defs)
  have d: "map FileURIs (map (\<lambda>r. DigitalObject_NormalizeView (the (example_digitalObjects r)))
               (List.map_filter digital_object_ref (Instances ?a))) = [[''http://files/7a.jpg'', ''http://files/7b.jpg'']]"
    by (simp add: example_defs FileURIs_NormalizeView)
  from NormalizeView_resolvable[OF h1 h2] obtain v where
    all: "NormalizeView other_verb ?a example_subjects example_digitalObjects = (Some v, None) \<and>
       Subjects_v v = map (\<lambda>r. Title_s (the (example_subjects r)))
               (List.map_filter (subject_ref other_verb) (Subjects_a ?a)) \<and>
       DigitalObjects v = map (\<lambda>r. DigitalObject_NormalizeView (the (example_digitalObjects r)))
               (List.map_filter digital_object_ref (Instances ?a)) \<and>
       (\<forall>obj. FileURIs (DigitalObject_NormalizeView obj) =
                    filter (\<lambda>u. u \<noteq> []) (map FileURI (FileVersions obj)))" ..
  have "Subjects_v v = [''Chemistry'', ''Physics'']"
    using all by (simp only: s)
  moreover have "map FileURIs (DigitalObjects v) = [[''http://files/7a.jpg'', ''http://files/7b.jpg'']]"
    using all by (simp only: d)
  ultimately show ?thesis
    using all by (intro exI[of _ v]) simp
qed

text \<open>
  C6, as amended. Removing a subject from the map never makes \<^verbatim>\<open>NormalizeView\<close> fail; the
  subject list loses one title for each \<^verbatim>\<open>Subjects\<close> entry that referred to the removed
  subject (exactly one when exactly one entry did) and keeps the other titles in their
  order; the digital objects are unchanged. An entry of \<^verbatim>\<open>Subjects\<close> or \<^verbatim>\<open>Instances\<close> with
  no reference, or with a reference that is not a key of the map, leaves the view as it is.
\<close>

theorem NormalizeView_remove_subject:
  "\<exists>v v'. NormalizeView bad_verb a subjects digitalObjects = (Some v, None) \<and>
          NormalizeView bad_verb a (subjects(k := None)) digitalObjects = (Some v', None) \<and>
          Subjects_v v =
            map (\<lambda>p. Title_s (snd p)) (resolved_subjects bad_verb subjects (Subjects_a a)) \<and>
          Subjects_v v' =
            map (\<lambda>p. Title_s (snd p))
              (filter (\<lambda>p. fst p \<noteq> k) (resolved_subjects bad_verb subjects (Subjects_a a))) \<and>
          length (Subjects_v v) =
            length (Subjects_v v') +
            length (filter (\<lambda>p. fst p = k)
              (resolved_subjects bad_verb subjects (Subjects_a a))) \<and>
          (length (filter (\<lambda>p. fst p = k)
              (resolved_subjects bad_verb subjects (Subjects_a a))) = 1 \<longrightarrow>
             length (Subjects_v v) = Suc (length (Subjects_v v'))) \<and>
          DigitalObjects v' = DigitalObjects v \<and>
          (\<forall>item w. subject_ref bad_verb item = None \<or>
                     (\<exists>r. subject_ref bad_verb item = Some r \<and> subjects r = None) \<longrightarrow>
                     subject_step bad_verb subjects item w = w) \<and>
          (\<forall>item w. digital_object_ref item = None \<or>
                     (\<exists>r. digital_object_ref item = Some r \<and> digitalObjects r = None) \<longrightarrow>
                     instance_step digitalObjects item w = w)"
proof -
  let ?rs = "resolved_subjects bad_verb subjects (Subjects_a a)"
  obtain v where v: "NormalizeView bad_verb a subjects digitalObjects = (Some v, None)"
    using NormalizeView_returns by blast
  obtain v' where v': "NormalizeView bad_verb a (subjects(k := None)) digitalObjects = (Some v', None)"
    using NormalizeView_returns by blast
  have s: "Subjects_v v = map (\<lambda>p. Title_s (snd p)) ?rs"
    and d: "DigitalObjects v =
              map (\<lambda>p. DigitalObject_NormalizeView (snd p))
                (resolved_digital_objects digitalObjects (Instances a))"
    using NormalizeView_lists[OF v] by simp_all
  have s': "Subjects_v v' = map (\<lambda>p. Title_s (snd p)) (filter (\<lambda>p. fst p \<noteq> k) ?rs)"
    and d': "DigitalObjects v' =
              map (\<lambda>p. DigitalObject_NormalizeView (snd p))
                (resolved_digital_objects digitalObjects (Instances a))"
    using NormalizeView_lists[OF v'] by (simp_all add: resolved_subjects_remove)
  have len: "length (Subjects_v v) =
               length (Subjects_v v') + length (filter (\<lambda>p. fst p = k) ?rs)"
    using sum_length_filter_compl[of "\<lambda>p. fst p = k" ?rs] by (simp add: s s')
  have skip_s: "\<forall>item w. subject_ref bad_verb item = None \<or>
                     (\<exists>r. subject_ref bad_verb item = Some r \<and> subjects r = None) \<longrightarrow>
                     subject_step bad_verb subjects item w = w"
    using subject_step_skips by blast
  have skip_i: "\<forall>item w. digital_object_ref item = None \<or>
                     (\<exists>r. digital_object_ref item = Some r \<and> digitalObjects r = None) \<longrightarrow>
                     instance_step digitalObjects item w = w"
    using instance_step_skips by blast
  from v v' s s' len d d' skip_s skip_i show ?thesis by simp
qed

theorem NormalizeView_remove_subject_witness:
  "\<exists>v v'. NormalizeView other_verb
          (example_accession [[(''ref'', JString ''/subjects/2'')], [(''ref'', JString ''/subjects/1'')], [(''ref'', JString ''/subjects/9'')], [(''note'', JNull)]])
          example_subjects example_digitalObjects = (Some v, None) \<and>
        NormalizeView other_verb
          (example_accession [[(''ref'', JString ''/subjects/2'')], [(''ref'', JString ''/subjects/1'')], [(''ref'', JString ''/subjects/9'')], [(''note'', JNull)]])
          (example_subjects(''/subjects/2'' := None)) example_digitalObjects = (Some v', None) \<and>
        Subjects_v v = [''Chemistry'', ''Physics''] \<and> Subjects_v v' = [''Physics''] \<and>
        length (Subjects_v v) = Suc (length (Subjects_v v'))"
proof -
  let ?items = "[[(''ref'', JString ''/subjects/2'')], [(''ref'', JString ''/subjects/1'')], [(''ref'', JString ''/subjects/9'')], [(''note'', JNull)]]"
  let ?a = "example_accession ?items"
  have rs: "resolved_subjects other_verb example_subjects (Subjects_a ?a) =
          [(''/subjects/2'', \<lparr>URI_s = ''/subjects/2'', Title_s = ''Chemistry''\<rparr>),
           (''/subjects/1'', \<lparr>URI_s = ''/subjects/1'', Title_s = ''Physics''\<rparr>)]"
    by (simp add: resolved_subjects_def example_defs)
  from NormalizeView_remove_subject[of other_verb ?a example_subjects example_digitalObjects "''/subjects/2''"]
  obtain v v' where
    "NormalizeView other_verb ?a example_subjects example_digitalObjects = (Some v, None)"
    "NormalizeView other_verb ?a (example_subjects(''/subjects/2'' := None)) example_digitalObjects = (Some v', None)"
    "Subjects_v v = map (\<lambda>p. Title_s (snd p)) (resolved_subjects other_verb example_subjects (Subjects_a ?a))"
    "Subjects_v v' = map (\<lambda>p. Title_s (snd p))
              (filter (\<lambda>p. fst p \<noteq> ''/subjects/2'') (resolved_subjects other_verb example_subjects (Subjects_a ?a)))"
    "length (filter (\<lambda>p. fst p = ''/subjects/2'')
              (resolved_subjects other_verb example_subjects (Subjects_a ?a))) = 1 \<longrightarrow>
             length (Subjects_v v) = Suc (length (Subjects_v v'))"
    by blast
  then show ?thesis unfolding rs by (intro exI[of _ v] exI[of _ v']) simp
qed

text \<open>
  The claim as first stated (exactly one entry fewer) fails for an accession that refers to
  the removed subject twice: both titles go.
\<close>

theorem NormalizeView_remove_subject_counterexample:
  "map_option Subjects_v (fst (NormalizeView other_verb
      (example_accession [[(''ref'', JString ''/subjects/1'')], [(''ref'', JString ''/subjects/1'')]])
      example_subjects example_digitalObjects)) = Some [''Physics'', ''Physics''] \<and>
   map_option Subjects_v (fst (NormalizeView other_verb
      (example_accession [[(''ref'', JString ''/subjects/1'')], [(''ref'', JString ''/subjects/1'')]])
      (example_subjects(''/subjects/1'' := None)) example_digitalObjects)) = Some []"
  by code_simp


section \<open>Properties of NavElementView.String\<close>

lemma Trim_Cons_space: "Trim (CHR '' '' # s) '' '' = Trim s '' ''"
  by (simp add: Trim_def)

lemma Trim_Nil: "Trim [] '' '' = []"
  by (simp add: Trim_def)

lemma Trim_tight:
  assumes "s \<noteq> []" "hd s \<noteq> CHR '' ''" "last s \<noteq> CHR '' ''"
  shows "Trim s '' '' = s"
proof -
  from assms(1,2) have l: "dropWhile (\<lambda>c. c = CHR '' '') s = s"
    by (cases s) simp_all
  from assms(1,3) have r: "dropWhile (\<lambda>c. c = CHR '' '') (rev s) = rev s"
    by (cases s rule: rev_cases) simp_all
  show ?thesis by (simp add: Trim_def l r)
qed

lemma Trim_snoc_space:
  assumes "s \<noteq> []" "hd s \<noteq> CHR '' ''"
  shows "Trim (s @ '' '') '' '' = Trim s '' ''"
proof -
  from assms have l: "dropWhile (\<lambda>c. c = CHR '' '') s = s"
    by (cases s) simp_all
  from assms have l': "dropWhile (\<lambda>c. c = CHR '' '') (s @ '' '') = s @ '' ''"
    by (cases s) simp_all
  show ?thesis by (simp add: Trim_def l l')
qed

lemma prev_fragment_ends:
  "prev_fragment nav \<noteq> []" "hd (prev_fragment nav) = CHR ''<''" "last (prev_fragment nav) = CHR ''>''"
  by (simp_all add: prev_fragment_def)

lemma this_fragment_ends:
  "this_fragment nav \<noteq> []" "hd (this_fragment nav) = CHR ''<''" "last (this_fragment nav) = CHR ''>''"
  by (simp_all add: this_fragment_def)

lemma next_fragment_ends:
  "next_fragment nav \<noteq> []" "hd (next_fragment nav) = CHR ''<''" "last (next_fragment nav) = CHR ''>''"
  by (simp_all add: next_fragment_def)

lemmas fragment_ends = prev_fragment_ends this_fragment_ends next_fragment_ends

lemma String_slots:
  "NavElementView_String nav =
     Trim ((if PrevURI nav \<noteq> [] then prev_fragment nav else []) @ '' '' @
           (if ThisURI nav \<noteq> [] then this_fragment nav else []) @ '' '' @
           (if NextURI nav \<noteq> [] then next_fragment nav else [])) '' ''"
  by (simp add: NavElementView_String_def prev_fragment_def this_fragment_def next_fragment_def Let_def)

lemma tight_append:
  "a \<noteq> [] \<Longrightarrow> hd a \<noteq> CHR '' '' \<Longrightarrow> b \<noteq> [] \<Longrightarrow> last b \<noteq> CHR '' '' \<Longrightarrow>
   Trim (a @ m @ b) '' '' = a @ m @ b"
  by (rule Trim_tight) (simp_all)

lemma String_cases:
  "NavElementView_String nav =
    (if PrevURI nav \<noteq> [] then
       (if ThisURI nav \<noteq> [] then
          (if NextURI nav \<noteq> [] then prev_fragment nav @ '' '' @ this_fragment nav @ '' '' @ next_fragment nav
           else prev_fragment nav @ '' '' @ this_fragment nav)
        else (if NextURI nav \<noteq> [] then prev_fragment nav @ ''  '' @ next_fragment nav
              else prev_fragment nav))
     else
       (if ThisURI nav \<noteq> [] then
          (if NextURI nav \<noteq> [] then this_fragment nav @ '' '' @ next_fragment nav
           else this_fragment nav)
        else (if NextURI nav \<noteq> [] then next_fragment nav else [])))"
proof -
  have sp: "CHR ''<'' \<noteq> CHR '' ''" "CHR ''>'' \<noteq> CHR '' ''" by simp_all
  note e = fragment_ends[of nav]
  have pp: "Trim (prev_fragment nav @ '' '' @ this_fragment nav @ '' '' @ next_fragment nav) '' '' =
            prev_fragment nav @ '' '' @ this_fragment nav @ '' '' @ next_fragment nav"
    using tight_append[of "prev_fragment nav" "next_fragment nav" "'' '' @ this_fragment nav @ '' ''"] e
    by simp
  have pt: "Trim (prev_fragment nav @ '' '' @ this_fragment nav @ '' '') '' '' = prev_fragment nav @ '' '' @ this_fragment nav"
    using Trim_snoc_space[of "prev_fragment nav @ '' '' @ this_fragment nav"]
      tight_append[of "prev_fragment nav" "this_fragment nav" "'' ''"] e by simp
  have pn: "Trim (prev_fragment nav @ ''  '' @ next_fragment nav) '' '' = prev_fragment nav @ ''  '' @ next_fragment nav"
    using tight_append[of "prev_fragment nav" "next_fragment nav" "''  ''"] e by simp
  have p: "Trim (prev_fragment nav @ ''  '') '' '' = prev_fragment nav"
    using Trim_snoc_space[of "prev_fragment nav @ '' ''"] Trim_snoc_space[of "prev_fragment nav"]
      Trim_tight[of "prev_fragment nav"] e by simp
  have tn: "Trim ('' '' @ this_fragment nav @ '' '' @ next_fragment nav) '' '' = this_fragment nav @ '' '' @ next_fragment nav"
    using tight_append[of "this_fragment nav" "next_fragment nav" "'' ''"] e by (simp add: Trim_Cons_space)
  have t: "Trim ('' '' @ this_fragment nav @ '' '') '' '' = this_fragment nav"
    using Trim_snoc_space[of "this_fragment nav"] Trim_tight[of "this_fragment nav"] e by (simp add: Trim_Cons_space)
  have n: "Trim (''  '' @ next_fragment nav) '' '' = next_fragment nav"
    using Trim_tight[of "next_fragment nav"] e by (simp add: Trim_Cons_space)
  have z: "Trim ''  '' '' '' = []" by (simp add: Trim_def)
  show ?thesis
    unfolding String_slots using pp pt pn p tn t n z by simp
qed


lemma String_ends:
  "NavElementView_String nav \<noteq> [] \<Longrightarrow>
   hd (NavElementView_String nav) = CHR ''<'' \<and> last (NavElementView_String nav) = CHR ''>''"
  using fragment_ends[of nav] by (simp add: String_cases split: if_splits)

text \<open>
  C2, as amended. The previous-link, current-marker and next-link fragments are emitted
  exactly when \<^verbatim>\<open>PrevURI\<close>, \<^verbatim>\<open>ThisURI\<close>, \<^verbatim>\<open>NextURI\<close> are non-empty, in this order, and the
  result has no leading or trailing white space. The fragments present are joined by
  single spaces, except that with an empty \<^verbatim>\<open>ThisURI\<close> between a non-empty \<^verbatim>\<open>PrevURI\<close> and
  a non-empty \<^verbatim>\<open>NextURI\<close> the two links are two spaces apart (the format has a fixed
  separator on each side of the current marker and only the ends are trimmed).
\<close>

theorem NavElementView_String_fragments:
  "(ThisURI nav \<noteq> [] \<or> PrevURI nav = [] \<or> NextURI nav = [] \<longrightarrow>
      NavElementView_String nav = join_single_spaces (present_fragments nav)) \<and>
   (ThisURI nav = [] \<and> PrevURI nav \<noteq> [] \<and> NextURI nav \<noteq> [] \<longrightarrow>
      NavElementView_String nav = prev_fragment nav @ ''  '' @ next_fragment nav) \<and>
   (NavElementView_String nav \<noteq> [] \<longrightarrow>
      \<not> is_space (hd (NavElementView_String nav)) \<and>
      \<not> is_space (last (NavElementView_String nav)))"
proof (intro conjI impI)
  assume "ThisURI nav \<noteq> [] \<or> PrevURI nav = [] \<or> NextURI nav = []"
  then show "NavElementView_String nav = join_single_spaces (present_fragments nav)"
    by (auto simp: String_cases present_fragments_def)
next
  assume "ThisURI nav = [] \<and> PrevURI nav \<noteq> [] \<and> NextURI nav \<noteq> []"
  then show "NavElementView_String nav = prev_fragment nav @ ''  '' @ next_fragment nav"
    by (simp add: String_cases)
next
  assume "NavElementView_String nav \<noteq> []"
  from String_ends[OF this]
  show "\<not> is_space (hd (NavElementView_String nav))"
    and "\<not> is_space (last (NavElementView_String nav))"
    by (simp_all add: is_space_def)
qed

theorem NavElementView_String_fragments_witness:
  \<open>NavElementView_String
     (new_NavElementView\<lparr>ThisLabel := ''Papers'', ThisURI := ''/accessions/1'',
        NextURI := ''/accessions/2'', NextLabel := ''Quilts''\<rparr>) =
   ''<span class="this-item" data-uri="/accessions/1" data-title="Papers">Papers</span> <a class="next-item" href="/accessions/2" title="Quilts">next</a>'' \<and>
   \<not> is_space (hd (NavElementView_String
     (new_NavElementView\<lparr>ThisLabel := ''Papers'', ThisURI := ''/accessions/1'',
        NextURI := ''/accessions/2'', NextLabel := ''Quilts''\<rparr>))) \<and>
   \<not> is_space (last (NavElementView_String
     (new_NavElementView\<lparr>ThisLabel := ''Papers'', ThisURI := ''/accessions/1'',
        NextURI := ''/accessions/2'', NextLabel := ''Quilts''\<rparr>)))\<close>
proof -
  let ?nav = "new_NavElementView\<lparr>ThisLabel := ''Papers'', ThisURI := ''/accessions/1'',
        NextURI := ''/accessions/2'', NextLabel := ''Quilts''\<rparr>"
  have h: "ThisURI ?nav \<noteq> [] \<or> PrevURI ?nav = [] \<or> NextURI ?nav = []"
    by (simp add: new_NavElementView_def)
  have j: \<open>join_single_spaces (present_fragments ?nav) =
    ''<span class="this-item" data-uri="/accessions/1" data-title="Papers">Papers</span> <a class="next-item" href="/accessions/2" title="Quilts">next</a>''\<close>
    by (simp add: present_fragments_def this_fragment_def next_fragment_def new_NavElementView_def)
  from NavElementView_String_fragments[of ?nav] h
  have s: "NavElementView_String ?nav = join_single_spaces (present_fragments ?nav)"
    and e: "NavElementView_String ?nav \<noteq> [] \<longrightarrow>
      \<not> is_space (hd (NavElementView_String ?nav)) \<and>
      \<not> is_space (last (NavElementView_String ?nav))"
    by blast+
  have ne: "NavElementView_String ?nav \<noteq> []"
    unfolding s j by simp
  from s j e ne show ?thesis by (simp only:) simp
qed

text \<open>
  The claim as first stated (single spaces between the fragments present) fails when
  only the two links are present.
\<close>

theorem NavElementView_String_counterexample:
  "NavElementView_String (new_NavElementView\<lparr>PrevURI := ''/accessions/1'', NextURI := ''/accessions/3''\<rparr>) \<noteq>
   join_single_spaces
     (present_fragments (new_NavElementView\<lparr>PrevURI := ''/accessions/1'', NextURI := ''/accessions/3''\<rparr>))"
  by (simp add: String_cases present_fragments_def new_NavElementView_def prev_fragment_def next_fragment_def)

section \<open>Properties of the string order, the sort and extractURI\<close>

lemma string_less_irrefl: "\<not> string_less s s"
  by (induction s) simp_all

lemma string_less_trans: "string_less a b \<Longrightarrow> string_less b c \<Longrightarrow> string_less a c"
proof (induction a b arbitrary: c rule: string_less.induct)
  case (1 s)
  then show ?case by simp
next
  case (2 b t)
  then show ?case by (cases c) simp_all
next
  case (3 a s b t)
  then show ?case by (cases c) auto
qed

lemma string_less_total: "\<not> string_less a b \<Longrightarrow> a \<noteq> b \<Longrightarrow> string_less b a"
proof (induction a b rule: string_less.induct)
  case (1 s)
  then show ?case by (cases s) simp_all
next
  case (2 b t)
  then show ?case by simp
next
  case (3 a s b t)
  then show ?case by (auto simp: linorder_not_less order_le_less)
qed

lemma string_le_refl: "string_le s s"
  by (simp add: string_le_def string_less_irrefl)

lemma string_le_total: "string_le a b \<or> string_le b a"
  unfolding string_le_def using string_less_trans string_less_irrefl by blast

lemma string_le_trans: "string_le a b \<Longrightarrow> string_le b c \<Longrightarrow> string_le a c"
  unfolding string_le_def using string_less_trans string_less_total by blast

lemma string_le_antisym: "string_le a b \<Longrightarrow> string_le b a \<Longrightarrow> a = b"
  unfolding string_le_def using string_less_total by blast

lemma string_less_append_same: "string_less (p @ s) (p @ t) = string_less s t"
  by (induction p) simp_all

lemma set_insert_String: "set (insert_String x ys) = insert x (set ys)"
  by (induction ys) auto

lemma mset_insert_String: "mset (insert_String x ys) = add_mset x (mset ys)"
  by (induction ys) auto

lemma sorted_insert_String:
  "sorted_wrt string_le ys \<Longrightarrow> sorted_wrt string_le (insert_String x ys)"
proof (induction ys)
  case Nil
  then show ?case by simp
next
  case (Cons y ys)
  show ?case
  proof (cases "string_less y x")
    case True
    then have "string_le y x"
      unfolding string_le_def using string_less_trans string_less_irrefl by blast
    with Cons True show ?thesis by (auto simp: set_insert_String)
  next
    case False
    then have xy: "string_le x y" by (simp add: string_le_def)
    with Cons.prems have "\<forall>z \<in> set ys. string_le x z"
      using string_le_trans by auto
    with Cons.prems xy False show ?thesis by simp
  qed
qed

lemma mset_sort_Strings: "mset (sort_Strings xs) = mset xs"
  by (induction xs) (simp_all add: sort_Strings_def mset_insert_String)

lemma sorted_sort_Strings: "sorted_wrt string_le (sort_Strings xs)"
  by (induction xs) (simp_all add: sort_Strings_def sorted_insert_String)


lemma length_sort_Strings: "length (sort_Strings xs) = length xs"
  using mset_sort_Strings[of xs] by (metis size_mset)

lemma map_insert_accession:
  "map composite (insert_accession x ys) = insert_String (composite x) (map composite ys)"
  by (induction ys) simp_all

lemma map_foldr_insert_accession:
  "map composite (foldr insert_accession accs []) = sort_Strings (map composite accs)"
  by (induction accs) (simp_all add: sort_Strings_def map_insert_accession)

lemma mset_insert_accession: "mset (insert_accession x ys) = add_mset x (mset ys)"
  by (induction ys) auto

lemma mset_foldr_insert_accession: "mset (foldr insert_accession accs []) = mset accs"
  by (induction accs) (simp_all add: mset_insert_accession)

lemma LastIndexByte_absent: "c \<notin> set u \<Longrightarrow> LastIndexByte u c = - 1"
  by (induction u) (auto simp: Let_def)

lemma LastIndexByte_last: "c \<notin> set u \<Longrightarrow> LastIndexByte (t @ c # u) c = int (length t)"
  by (induction t) (simp_all add: Let_def LastIndexByte_absent)

lemma extractURI_composite:
  "CHR ''|'' \<notin> set uri \<Longrightarrow> extractURI (title @ ''|'' @ uri) = uri"
proof -
  assume "CHR ''|'' \<notin> set uri"
  then have "LastIndexByte (title @ CHR ''|'' # uri) (CHR ''|'') = int (length title)"
    by (rule LastIndexByte_last)
  moreover have "nat (int (length title) + 1) = Suc (length title)" by simp
  ultimately show ?thesis by (simp add: extractURI_def Let_def)
qed

section \<open>Properties of the walk\<close>

lemma Unmarshal_projection_None:
  "(snd (Unmarshal_projection src) = None) = (src = Document JNull)"
  by (auto simp: Unmarshal_projection_def Let_def split: content.splits json.splits)

lemma walkFn_recorded:
  "walkFn pc st = Some st' \<Longrightarrow>
   st' = (case recorded pc of None \<Rightarrow> st | Some tu \<Rightarrow> record_accession tu st)"
  by (auto simp: walkFn_def recorded_def record_accession_def composite_def Let_def
      split: if_splits content.splits option.splits)

lemma Walk_accessions:
  "Walk tree st = Some st' \<Longrightarrow> st' = fold record_accession (accessions tree) st"
proof (induction tree arbitrary: st)
  case Nil
  then show ?case by (simp add: accessions_def List.map_filter_simps)
next
  case (Cons pc tree)
  then obtain st1 where 1: "walkFn pc st = Some st1" and 2: "Walk tree st1 = Some st'"
    by (auto split: option.splits)
  from walkFn_recorded[OF 1] Cons.IH[OF 2] show ?case
    by (simp add: accessions_def List.map_filter_simps split: option.splits)
qed

lemma snd_fold_record:
  "snd (fold record_accession accs st) = snd st @ map composite accs"
  by (induction accs arbitrary: st) (simp_all add: record_accession_def)

lemma map_of_fold_record_dom:
  "dom (map_of (fst (fold record_accession accs st))) = dom (map_of (fst st)) \<union> snd ` set accs"
  by (induction accs arbitrary: st) (auto simp: record_accession_def update_conv')

lemma fresh_record_accession:
  assumes "fresh_index (fst st)"
  shows "fresh_index (fst (record_accession tu st))"
  unfolding fresh_index_def
proof (intro allI impI)
  fix k nav
  assume "map_of (fst (record_accession tu st)) k = Some nav"
  then have "((map_of (fst st))(snd tu \<mapsto> (new_NavElementView\<lparr>ThisLabel := fst tu, ThisURI := snd tu\<rparr>))) k = Some nav"
    by (simp add: record_accession_def update_conv')
  then consider "k = snd tu" "nav = new_NavElementView\<lparr>ThisLabel := fst tu, ThisURI := snd tu\<rparr>"
    | "map_of (fst st) k = Some nav"
    by (cases "k = snd tu") simp_all
  then show "ThisURI nav = k \<and> PrevURI nav = [] \<and> NextURI nav = [] \<and>
      PrevLabel nav = [] \<and> NextLabel nav = []"
  proof cases
    case 1
    then show ?thesis by (simp add: new_NavElementView_def)
  next
    case 2
    with assms show ?thesis unfolding fresh_index_def by blast
  qed
qed

lemma fresh_fold_record:
  "fresh_index (fst st) \<Longrightarrow> fresh_index (fst (fold record_accession accs st))"
  by (induction accs arbitrary: st) (simp_all add: fresh_record_accession)

lemma length_fold_record:
  "fst st \<noteq> [] \<or> accs \<noteq> [] \<Longrightarrow> fst (fold record_accession accs st) \<noteq> []"
proof (induction accs arbitrary: st)
  case Nil then show ?case by simp
next
  case (Cons a accs)
  have "AList.update k v al \<noteq> []" for k and v :: NavElementView and al
    by (cases al) simp_all
  then have "fst (record_accession a st) \<noteq> []" by (simp add: record_accession_def)
  then show ?case using Cons.IH[of "record_accession a st"] by simp
qed

lemma MakeAccessionTitleIndex_cases:
  "MakeAccessionTitleIndex tree =
     (case Walk tree ([], []) of
        None \<Rightarrow> Panic
      | Some st \<Rightarrow>
          if accessions tree = [] then Return None (Some ''No titles found'')
          else Return (Some (link_titles (sort_Strings (map composite (accessions tree)))
                 (fst (fold record_accession (accessions tree) ([], []))))) None)"
proof (cases "Walk tree ([], [])")
  case None
  then show ?thesis by (simp add: MakeAccessionTitleIndex_def)
next
  case (Some st)
  from Walk_accessions[OF Some] have st: "st = fold record_accession (accessions tree) ([], [])" .
  have k: "snd st = map composite (accessions tree)"
    unfolding st by (simp add: snd_fold_record)
  have i: "accessions tree \<noteq> [] \<Longrightarrow> fst st \<noteq> []"
    unfolding st using length_fold_record by blast
  obtain idx ks where p: "st = (idx, ks)" by (cases st)
  with k i have "ks = map composite (accessions tree)" "accessions tree \<noteq> [] \<Longrightarrow> idx \<noteq> []"
    by simp_all
  with Some p st show ?thesis
    by (auto simp: MakeAccessionTitleIndex_def)
qed

section \<open>Properties of the linking loop\<close>

lemma link_prev_other:
  "k \<noteq> uri \<Longrightarrow> map_of (link_prev ks i uri idx) k = map_of idx k"
  by (simp add: link_prev_def Let_def map_of_map_entry split: option.splits)

lemma link_next_other:
  "k \<noteq> uri \<Longrightarrow> map_of (link_next ks lastI i uri idx) k = map_of idx k"
  by (simp add: link_next_def Let_def map_of_map_entry split: option.splits)

lemma link_prev_at:
  "map_of idx uri = Some a \<Longrightarrow>
   map_of (link_prev ks i uri idx) uri =
     Some (if 0 < i
           then (case map_of idx (extractURI (ks ! (i - 1))) of
                   None \<Rightarrow> a
                 | Some p \<Rightarrow> a\<lparr>PrevLabel := ThisLabel p, PrevURI := ThisURI p\<rparr>)
           else a)"
  by (simp add: link_prev_def Let_def map_of_map_entry split: option.splits)

lemma link_next_at:
  "map_of idx uri = Some a \<Longrightarrow>
   map_of (link_next ks lastI i uri idx) uri =
     Some (if int i < lastI
           then (case map_of idx (extractURI (ks ! (i + 1))) of
                   None \<Rightarrow> a
                 | Some q \<Rightarrow> a\<lparr>NextLabel := ThisLabel q, NextURI := ThisURI q\<rparr>)
           else a)"
  by (simp add: link_next_def Let_def map_of_map_entry split: option.splits)

lemma map_of_link_step_other:
  "k \<noteq> extractURI (ks ! i) \<Longrightarrow> map_of (link_step ks lastI i idx) k = map_of idx k"
  by (simp add: link_step_def Let_def link_prev_other link_next_other split: option.splits)

lemma link_step_at:
  assumes a: "map_of idx (extractURI (ks ! i)) = Some a"
    and p: "0 < i \<Longrightarrow> map_of idx (extractURI (ks ! (i - 1))) = Some p"
    and q: "int i < lastI \<Longrightarrow> map_of idx (extractURI (ks ! (i + 1))) = Some q"
    and d: "int i < lastI \<Longrightarrow> extractURI (ks ! (i + 1)) \<noteq> extractURI (ks ! i)"
  shows "map_of (link_step ks lastI i idx) (extractURI (ks ! i)) =
           Some (a\<lparr>PrevLabel := if 0 < i then ThisLabel p else PrevLabel a,
                   PrevURI := if 0 < i then ThisURI p else PrevURI a,
                   NextLabel := if int i < lastI then ThisLabel q else NextLabel a,
                   NextURI := if int i < lastI then ThisURI q else NextURI a\<rparr>)"
proof -
  let ?uri = "extractURI (ks ! i)"
  let ?a1 = "if 0 < i then a\<lparr>PrevLabel := ThisLabel p, PrevURI := ThisURI p\<rparr> else a"
  have 1: "map_of (link_prev ks i ?uri idx) ?uri = Some ?a1"
    using link_prev_at[OF a, of ks i] p by (cases "0 < i") simp_all
  have 2: "int i < lastI \<Longrightarrow> map_of (link_prev ks i ?uri idx) (extractURI (ks ! (i + 1))) = Some q"
    using link_prev_other[OF d] q by simp
  have "map_of (link_step ks lastI i idx) ?uri =
          map_of (link_next ks lastI i ?uri (link_prev ks i ?uri idx)) ?uri"
    using a by (simp add: link_step_def Let_def)
  also have "\<dots> = Some (if int i < lastI
                         then ?a1\<lparr>NextLabel := ThisLabel q, NextURI := ThisURI q\<rparr> else ?a1)"
    using link_next_at[OF 1, of ks lastI i] 2 by (cases "int i < lastI") simp_all
  finally show ?thesis
    by (cases "0 < i"; cases "int i < lastI") simp_all
qed


lemma link_titles_linked:
  assumes fresh: "fresh_index idx"
    and dist: "distinct (map extractURI ks)"
    and dom: "\<forall>k \<in> set ks. map_of idx (extractURI k) \<noteq> None"
    and i: "i < length ks"
  shows "\<exists>a. map_of (link_titles ks idx) (extractURI (ks ! i)) = Some a \<and>
             ThisURI a = extractURI (ks ! i) \<and>
             PrevURI a = (if 0 < i then extractURI (ks ! (i - 1)) else []) \<and>
             NextURI a = (if i + 1 < length ks then extractURI (ks ! (i + 1)) else [])"
proof -
  let ?n = "length ks"
  let ?U = "\<lambda>i. extractURI (ks ! i)"
  let ?L = "link_step ks (int ?n - 1)"
  let ?F = "\<lambda>j. fold ?L [0..<j] idx"
  have neq: "?U i \<noteq> ?U j" if "i < ?n" "j < ?n" "i \<noteq> j" for i j
    using dist that by (simp add: distinct_conv_nth)
  have inv: "\<forall>i < ?n. \<exists>a. map_of (?F j) (?U i) = Some a \<and> ThisURI a = ?U i \<and>
               PrevURI a = (if i < j \<and> 0 < i then ?U (i - 1) else []) \<and>
               NextURI a = (if i < j \<and> i + 1 < ?n then ?U (i + 1) else [])"
    if "j \<le> ?n" for j
    using that
  proof (induction j)
    case 0
    show ?case
    proof (intro allI impI)
      fix i assume "i < ?n"
      then have "ks ! i \<in> set ks" by simp
      with dom have "map_of idx (?U i) \<noteq> None" by blast
      then obtain a where a: "map_of idx (?U i) = Some a" by blast
      with fresh have "ThisURI a = ?U i \<and> PrevURI a = [] \<and> NextURI a = []"
        unfolding fresh_index_def by blast
      with a show "\<exists>a. map_of (?F 0) (?U i) = Some a \<and> ThisURI a = ?U i \<and>
               PrevURI a = (if i < 0 \<and> 0 < i then ?U (i - 1) else []) \<and>
               NextURI a = (if i < 0 \<and> i + 1 < ?n then ?U (i + 1) else [])"
        by simp
    qed
  next
    case (Suc j)
    then have j: "j < ?n" and IH: "\<forall>i < ?n. \<exists>a. map_of (?F j) (?U i) = Some a \<and> ThisURI a = ?U i \<and>
               PrevURI a = (if i < j \<and> 0 < i then ?U (i - 1) else []) \<and>
               NextURI a = (if i < j \<and> i + 1 < ?n then ?U (i + 1) else [])"
      by simp_all
    have F: "?F (Suc j) = ?L j (?F j)" by simp
    show ?case
    proof (intro allI impI)
      fix i assume i: "i < ?n"
      show "\<exists>a. map_of (?F (Suc j)) (?U i) = Some a \<and> ThisURI a = ?U i \<and>
               PrevURI a = (if i < Suc j \<and> 0 < i then ?U (i - 1) else []) \<and>
               NextURI a = (if i < Suc j \<and> i + 1 < ?n then ?U (i + 1) else [])"
      proof (cases "i = j")
        case False
        from neq[OF i j False] have "map_of (?F (Suc j)) (?U i) = map_of (?F j) (?U i)"
          unfolding F by (rule map_of_link_step_other)
        moreover from False have "(i < Suc j) = (i < j)" by auto
        ultimately show ?thesis using IH i by simp
      next
        case True
        from IH j obtain a where a: "map_of (?F j) (?U j) = Some a" "ThisURI a = ?U j"
          "PrevURI a = []" "NextURI a = []" by auto
        have p: "0 < j \<Longrightarrow> \<exists>p. map_of (?F j) (?U (j - 1)) = Some p \<and> ThisURI p = ?U (j - 1)"
          using IH j by (meson less_imp_diff_less)
        have q: "int j < int ?n - 1 \<Longrightarrow> \<exists>q. map_of (?F j) (?U (j + 1)) = Some q \<and> ThisURI q = ?U (j + 1)"
        proof -
          assume "int j < int ?n - 1"
          then have "j + 1 < ?n" by simp
          with IH show ?thesis by blast
        qed
        define p' where "p' = the (map_of (?F j) (?U (j - 1)))"
        define q' where "q' = the (map_of (?F j) (?U (j + 1)))"
        have p': "0 < j \<Longrightarrow> map_of (?F j) (?U (j - 1)) = Some p'" "0 < j \<Longrightarrow> ThisURI p' = ?U (j - 1)"
          using p unfolding p'_def by auto
        have q': "int j < int ?n - 1 \<Longrightarrow> map_of (?F j) (?U (j + 1)) = Some q'"
          "int j < int ?n - 1 \<Longrightarrow> ThisURI q' = ?U (j + 1)"
          using q unfolding q'_def by auto
        have d: "int j < int ?n - 1 \<Longrightarrow> ?U (j + 1) \<noteq> ?U j"
        proof -
          assume "int j < int ?n - 1"
          then have "j + 1 < ?n" by simp
          from neq[OF this j] show ?thesis by simp
        qed
        have lt: "(int j < int ?n - 1) = (j + 1 < ?n)" by auto
        from link_step_at[OF a(1) p'(1) q'(1) d]
        have "map_of (?F (Suc j)) (?U j) =
           Some (a\<lparr>PrevLabel := if 0 < j then ThisLabel p' else PrevLabel a,
                   PrevURI := if 0 < j then ThisURI p' else PrevURI a,
                   NextLabel := if int j < int ?n - 1 then ThisLabel q' else NextLabel a,
                   NextURI := if int j < int ?n - 1 then ThisURI q' else NextURI a\<rparr>)"
          unfolding F by simp
        with a p'(2) q'(2) lt True show ?thesis by auto
      qed
    qed
  qed
  have "link_titles ks idx = ?F ?n" by (simp add: link_titles_def)
  with inv[of ?n] i show ?thesis by simp
qed

lemma link_prev_lookup:
  "(map_of (link_prev ks i uri idx) k = None) = (map_of idx k = None)"
  "map_of (link_prev ks i uri idx) k = Some a' \<Longrightarrow>
     \<exists>a. map_of idx k = Some a \<and> ThisURI a' = ThisURI a"
  by (auto simp: link_prev_def Let_def map_of_map_entry split: option.splits if_splits)

lemma link_next_lookup:
  "(map_of (link_next ks lastI i uri idx) k = None) = (map_of idx k = None)"
  "map_of (link_next ks lastI i uri idx) k = Some a' \<Longrightarrow>
     \<exists>a. map_of idx k = Some a \<and> ThisURI a' = ThisURI a"
  by (auto simp: link_next_def Let_def map_of_map_entry split: option.splits if_splits)

lemma link_step_lookup:
  "(map_of (link_step ks lastI i idx) k = None) = (map_of idx k = None)"
  "map_of (link_step ks lastI i idx) k = Some a' \<Longrightarrow>
     \<exists>a. map_of idx k = Some a \<and> ThisURI a' = ThisURI a"
proof -
  show "(map_of (link_step ks lastI i idx) k = None) = (map_of idx k = None)"
    by (simp add: link_step_def Let_def link_prev_lookup(1) link_next_lookup(1)
        split: option.splits)
  assume s: "map_of (link_step ks lastI i idx) k = Some a'"
  show "\<exists>a. map_of idx k = Some a \<and> ThisURI a' = ThisURI a"
  proof (cases "map_of idx (extractURI (ks ! i))")
    case None
    with s show ?thesis by (simp add: link_step_def Let_def)
  next
    case (Some x)
    with s have "map_of (link_next ks lastI i (extractURI (ks ! i))
                   (link_prev ks i (extractURI (ks ! i)) idx)) k = Some a'"
      by (simp add: link_step_def Let_def)
    from link_next_lookup(2)[OF this] obtain b where
      b: "map_of (link_prev ks i (extractURI (ks ! i)) idx) k = Some b" "ThisURI a' = ThisURI b"
      by blast
    from link_prev_lookup(2)[OF b(1)] b(2) show ?thesis by auto
  qed
qed

lemma fold_link_step_lookup:
  "(map_of (fold (link_step ks lastI) js idx) k = None) = (map_of idx k = None)"
  "map_of (fold (link_step ks lastI) js idx) k = Some a' \<Longrightarrow>
     \<exists>a. map_of idx k = Some a \<and> ThisURI a' = ThisURI a"
proof (induction js arbitrary: idx a')
  case Nil
  { case 1 show ?case by simp }
  { case 2 then show ?case by simp }
next
  case (Cons j js)
  { case 1 show ?case by (simp add: Cons.IH(1) link_step_lookup(1)) }
  { case 2
    then have "map_of (fold (link_step ks lastI) js (link_step ks lastI j idx)) k = Some a'"
      by simp
    from Cons.IH(2)[OF this] obtain b where
      b: "map_of (link_step ks lastI j idx) k = Some b" "ThisURI a' = ThisURI b" by blast
    from link_step_lookup(2)[OF b(1)] b(2) show ?case by auto }
qed

lemma link_titles_lookup:
  "(map_of (link_titles ks idx) k = None) = (map_of idx k = None)"
  "map_of (link_titles ks idx) k = Some a' \<Longrightarrow>
     \<exists>a. map_of idx k = Some a \<and> ThisURI a' = ThisURI a"
  unfolding link_titles_def by (rule fold_link_step_lookup)+

lemma fresh_walked: "fresh_index (fst (fold record_accession accs ([], [])))"
  by (rule fresh_fold_record) (simp add: fresh_index_def)

lemma index_success:
  assumes "MakeAccessionTitleIndex tree = Return (Some titleIndex) None"
  shows "accessions tree \<noteq> []"
    and "titleIndex =
           link_titles (sort_Strings (map composite (accessions tree)))
             (fst (fold record_accession (accessions tree) ([], [])))"
  using assms unfolding MakeAccessionTitleIndex_cases
  by (auto split: option.splits if_splits)

lemma index_keyed:
  assumes "MakeAccessionTitleIndex tree = Return (Some titleIndex) None"
    and "map_of titleIndex k = Some nav"
  shows "ThisURI nav = k" and "k \<in> snd ` set (accessions tree)"
proof -
  let ?idx0 = "fst (fold record_accession (accessions tree) ([], []))"
  from index_success(2)[OF assms(1)] assms(2)
  have l: "map_of (link_titles (sort_Strings (map composite (accessions tree))) ?idx0) k = Some nav"
    by simp
  from link_titles_lookup(2)[OF l] obtain a where
    a: "map_of ?idx0 k = Some a" "ThisURI nav = ThisURI a" by blast
  with fresh_walked[of "accessions tree"] show "ThisURI nav = k"
    unfolding fresh_index_def by auto
  from a(1) have "k \<in> dom (map_of ?idx0)" by blast
  then show "k \<in> snd ` set (accessions tree)"
    by (simp add: map_of_fold_record_dom)
qed

lemma index_has_key:
  assumes "MakeAccessionTitleIndex tree = Return (Some titleIndex) None"
    and "tu \<in> set (accessions tree)"
  shows "map_of titleIndex (snd tu) \<noteq> None"
proof -
  let ?idx0 = "fst (fold record_accession (accessions tree) ([], []))"
  from assms(2) have "snd tu \<in> dom (map_of ?idx0)"
    by (simp add: map_of_fold_record_dom)
  then have "map_of ?idx0 (snd tu) \<noteq> None" by blast
  then show ?thesis
    unfolding index_success(2)[OF assms(1)] by (simp add: link_titles_lookup(1))
qed

lemma sorted_accessions_props:
  "mset (sorted_accessions tree) = mset (accessions tree)"
  "map composite (sorted_accessions tree) = sort_Strings (map composite (accessions tree))"
  "sorted_wrt (\<lambda>x y. string_le (composite x) (composite y)) (sorted_accessions tree)"
proof -
  show 1: "mset (sorted_accessions tree) = mset (accessions tree)"
    by (simp add: sorted_accessions_def mset_foldr_insert_accession)
  show 2: "map composite (sorted_accessions tree) = sort_Strings (map composite (accessions tree))"
    by (simp add: sorted_accessions_def map_foldr_insert_accession)
  have "sorted_wrt string_le (map composite (sorted_accessions tree))"
    unfolding 2 by (rule sorted_sort_Strings)
  then show "sorted_wrt (\<lambda>x y. string_le (composite x) (composite y)) (sorted_accessions tree)"
    by (simp add: sorted_wrt_map)
qed

section \<open>Properties of MakeAccessionTitleIndex\<close>

lemmas walk_defs = accessions_def recorded_def HasSuffix_def Unmarshal_projection_def
  store_member_def store_string_def ascii_upper_def new_projection_def accession_document_def
  List.map_filter_simps Let_def

lemmas index_defs = record_accession_def composite_def sort_Strings_def link_titles_def
  link_step_def link_prev_def link_next_def extractURI_def new_NavElementView_def upt_rec

lemma example_tree_accessions: "accessions example_tree = [(''A'', ''/u2''), (''A'', ''/u1''), (''B'', ''/u3'')]"
  by (simp add: example_tree_def walk_defs)

lemma example_tree_sorted: "sorted_accessions example_tree = [(''A'', ''/u1''), (''A'', ''/u2''), (''B'', ''/u3'')]"
  by (simp add: sorted_accessions_def example_tree_accessions composite_def)

lemma example_tree_index: "MakeAccessionTitleIndex example_tree = Return (Some 
    [(''/u2'', \<lparr>ThisLabel = ''A'', ThisURI = ''/u2'', PrevURI = ''/u1'', PrevLabel = ''A'',
               NextURI = ''/u3'', NextLabel = ''B'', Weight = 0\<rparr>),
     (''/u1'', \<lparr>ThisLabel = ''A'', ThisURI = ''/u1'', PrevURI = [], PrevLabel = [],
               NextURI = ''/u2'', NextLabel = ''A'', Weight = 0\<rparr>),
     (''/u3'', \<lparr>ThisLabel = ''B'', ThisURI = ''/u3'', PrevURI = ''/u2'', PrevLabel = ''A'',
               NextURI = [], NextLabel = [], Weight = 0\<rparr>)]) None"
  unfolding MakeAccessionTitleIndex_cases
  by (simp add: example_tree_accessions example_tree_def walkFn_def walk_defs index_defs)


lemma adjacent_links:
  assumes ok: "MakeAccessionTitleIndex tree = Return (Some titleIndex) None"
    and dist: "distinct (map snd (accessions tree))"
    and bar: "\<forall>tu \<in> set (accessions tree). CHR ''|'' \<notin> set (snd tu)"
  shows "(\<forall>k nav. map_of titleIndex k = Some nav \<longrightarrow> ThisURI nav = k) \<and>
         (\<forall>i. Suc i < length (sorted_accessions tree) \<longrightarrow>
            (\<exists>a b. map_of titleIndex (snd (sorted_accessions tree ! i)) = Some a \<and>
                   map_of titleIndex (snd (sorted_accessions tree ! Suc i)) = Some b \<and>
                   NextURI a = ThisURI b \<and> PrevURI b = ThisURI a)) \<and>
         (\<exists>a z. map_of titleIndex (snd (hd (sorted_accessions tree))) = Some a \<and>
                PrevURI a = [] \<and>
                map_of titleIndex (snd (last (sorted_accessions tree))) = Some z \<and>
                NextURI z = [])"
proof -
  let ?sa = "sorted_accessions tree"
  let ?ks = "sort_Strings (map composite (accessions tree))"
  let ?idx0 = "fst (fold record_accession (accessions tree) ([], []))"
  have ks: "?ks = map composite ?sa" by (simp add: sorted_accessions_props(2))
  have set_sa: "set ?sa = set (accessions tree)"
    using sorted_accessions_props(1)[of tree] by (metis set_mset_mset)
  have len: "length ?ks = length ?sa" by (simp add: ks)
  have ex: "extractURI (composite tu) = snd tu" if "tu \<in> set ?sa" for tu
    using that bar set_sa extractURI_composite[of "snd tu" "fst tu"]
    by (simp add: composite_def)
  have U: "map extractURI ?ks = map snd ?sa"
    unfolding ks using ex by simp
  have Ui: "extractURI (?ks ! i) = snd (?sa ! i)" if "i < length ?sa" for i
    using that ex by (simp add: ks)
  have "mset (map snd ?sa) = mset (map snd (accessions tree))"
    using sorted_accessions_props(1)[of tree] by simp
  with dist have d: "distinct (map extractURI ?ks)"
    unfolding U by (metis mset_eq_imp_distinct_iff)
  have dom: "\<forall>k \<in> set ?ks. map_of ?idx0 (extractURI k) \<noteq> None"
  proof
    fix k assume "k \<in> set ?ks"
    then obtain tu where tu: "tu \<in> set ?sa" "k = composite tu" unfolding ks by auto
    with set_sa have "snd tu \<in> dom (map_of ?idx0)" by (simp add: map_of_fold_record_dom)
    with tu ex show "map_of ?idx0 (extractURI k) \<noteq> None" by auto
  qed
  have idx: "titleIndex = link_titles ?ks ?idx0" by (rule index_success(2)[OF ok])
  have ne: "?sa \<noteq> []" using index_success(1)[OF ok] set_sa by auto
  have linked: "\<exists>a. map_of titleIndex (snd (?sa ! i)) = Some a \<and>
             ThisURI a = snd (?sa ! i) \<and>
             PrevURI a = (if 0 < i then snd (?sa ! (i - 1)) else []) \<and>
             NextURI a = (if i + 1 < length ?sa then snd (?sa ! (i + 1)) else [])"
    if i: "i < length ?sa" for i
  proof -
    from i have i': "i < length ?ks" by (simp add: len)
    from link_titles_linked[OF fresh_walked d dom i', folded idx]
    obtain a where a: "map_of titleIndex (extractURI (?ks ! i)) = Some a"
      "ThisURI a = extractURI (?ks ! i)"
      "PrevURI a = (if 0 < i then extractURI (?ks ! (i - 1)) else [])"
      "NextURI a = (if i + 1 < length ?ks then extractURI (?ks ! (i + 1)) else [])"
      by blast
    have p: "0 < i \<Longrightarrow> extractURI (?ks ! (i - 1)) = snd (?sa ! (i - 1))"
      using i by (intro Ui) simp
    have n: "i + 1 < length ?sa \<Longrightarrow> extractURI (?ks ! (i + 1)) = snd (?sa ! (i + 1))"
      by (intro Ui)
    from a p n show ?thesis by (simp add: Ui[OF i] len)
  qed
  have 1: "\<forall>k nav. map_of titleIndex k = Some nav \<longrightarrow> ThisURI nav = k"
    using index_keyed(1)[OF ok] by blast
  have 2: "\<forall>i. Suc i < length ?sa \<longrightarrow>
            (\<exists>a b. map_of titleIndex (snd (?sa ! i)) = Some a \<and>
                   map_of titleIndex (snd (?sa ! Suc i)) = Some b \<and>
                   NextURI a = ThisURI b \<and> PrevURI b = ThisURI a)"
  proof (intro allI impI)
    fix i assume s: "Suc i < length ?sa"
    then have i: "i < length ?sa" by simp
    from linked[OF i] s obtain a where a: "map_of titleIndex (snd (?sa ! i)) = Some a"
      "ThisURI a = snd (?sa ! i)" "NextURI a = snd (?sa ! Suc i)" by auto
    from linked[OF s] obtain b where b: "map_of titleIndex (snd (?sa ! Suc i)) = Some b"
      "ThisURI b = snd (?sa ! Suc i)" "PrevURI b = snd (?sa ! i)" by auto
    from a b show "\<exists>a b. map_of titleIndex (snd (?sa ! i)) = Some a \<and>
                   map_of titleIndex (snd (?sa ! Suc i)) = Some b \<and>
                   NextURI a = ThisURI b \<and> PrevURI b = ThisURI a" by simp
  qed
  have 3: "\<exists>a z. map_of titleIndex (snd (hd ?sa)) = Some a \<and> PrevURI a = [] \<and>
                map_of titleIndex (snd (last ?sa)) = Some z \<and> NextURI z = []"
  proof -
    from ne have 0: "0 < length ?sa" by simp
    from linked[OF 0] ne obtain a where a: "map_of titleIndex (snd (hd ?sa)) = Some a"
      "PrevURI a = []" by (auto simp: hd_conv_nth)
    from ne have l: "length ?sa - 1 < length ?sa" by simp
    from linked[OF l] ne obtain z where z: "map_of titleIndex (snd (last ?sa)) = Some z"
      "NextURI z = []" by (auto simp: last_conv_nth)
    from a z show ?thesis by blast
  qed
  from 1 2 3 show ?thesis by blast
qed

text \<open>
  C4, as amended. In every title index that \<^verbatim>\<open>MakeAccessionTitleIndex\<close> returns, every
  element's \<^verbatim>\<open>ThisURI\<close> is the key it is stored under. When the URIs of the recorded
  accessions are distinct and none of them contains the separator \<^verbatim>\<open>|\<close>, then for any two
  accessions adjacent in the order of the composite keys the earlier element's \<^verbatim>\<open>NextURI\<close>
  is the later one's \<^verbatim>\<open>ThisURI\<close> and the later element's \<^verbatim>\<open>PrevURI\<close> is the earlier one's
  \<^verbatim>\<open>ThisURI\<close>; the first element has an empty \<^verbatim>\<open>PrevURI\<close> and the last an empty \<^verbatim>\<open>NextURI\<close>.
\<close>

theorem title_index_links:
  assumes ok: "MakeAccessionTitleIndex tree = Return (Some titleIndex) None"
  shows "(\<forall>k nav. map_of titleIndex k = Some nav \<longrightarrow> ThisURI nav = k) \<and>
         (distinct (map snd (accessions tree)) \<and>
          (\<forall>tu \<in> set (accessions tree). CHR ''|'' \<notin> set (snd tu)) \<longrightarrow>
            (\<forall>i. Suc i < length (sorted_accessions tree) \<longrightarrow>
               (\<exists>a b. map_of titleIndex (snd (sorted_accessions tree ! i)) = Some a \<and>
                      map_of titleIndex (snd (sorted_accessions tree ! Suc i)) = Some b \<and>
                      NextURI a = ThisURI b \<and> PrevURI b = ThisURI a)) \<and>
            (\<exists>a z. map_of titleIndex (snd (hd (sorted_accessions tree))) = Some a \<and>
                   PrevURI a = [] \<and>
                   map_of titleIndex (snd (last (sorted_accessions tree))) = Some z \<and>
                   NextURI z = []))"
proof (intro conjI impI)
  show "\<forall>k nav. map_of titleIndex k = Some nav \<longrightarrow> ThisURI nav = k"
    using index_keyed(1)[OF ok] by blast
next
  assume h: "distinct (map snd (accessions tree)) \<and>
          (\<forall>tu \<in> set (accessions tree). CHR ''|'' \<notin> set (snd tu))"
  then have dist: "distinct (map snd (accessions tree))"
    and bar: "\<forall>tu \<in> set (accessions tree). CHR ''|'' \<notin> set (snd tu)"
    by simp_all
  from adjacent_links[OF ok dist bar]
  show "\<forall>i. Suc i < length (sorted_accessions tree) \<longrightarrow>
               (\<exists>a b. map_of titleIndex (snd (sorted_accessions tree ! i)) = Some a \<and>
                      map_of titleIndex (snd (sorted_accessions tree ! Suc i)) = Some b \<and>
                      NextURI a = ThisURI b \<and> PrevURI b = ThisURI a)"
    and "\<exists>a z. map_of titleIndex (snd (hd (sorted_accessions tree))) = Some a \<and>
                   PrevURI a = [] \<and>
                   map_of titleIndex (snd (last (sorted_accessions tree))) = Some z \<and>
                   NextURI z = []"
    by blast+
qed

theorem title_index_links_witness:
  "accessions example_tree = [(''A'', ''/u2''), (''A'', ''/u1''), (''B'', ''/u3'')] \<and>
   sorted_accessions example_tree = [(''A'', ''/u1''), (''A'', ''/u2''), (''B'', ''/u3'')] \<and>
   (\<exists>titleIndex a b c.
      MakeAccessionTitleIndex example_tree = Return (Some titleIndex) None \<and>
      map_of titleIndex ''/u1'' = Some a \<and> map_of titleIndex ''/u2'' = Some b \<and>
      map_of titleIndex ''/u3'' = Some c \<and>
      PrevURI a = [] \<and> NextURI a = ''/u2'' \<and>
      PrevURI b = ''/u1'' \<and> NextURI b = ''/u3'' \<and>
      PrevURI c = ''/u2'' \<and> NextURI c = [])"
proof -
  note acc = example_tree_accessions
  note sa = example_tree_sorted
  define titleIndex where "titleIndex =
    [(''/u2'', \<lparr>ThisLabel = ''A'', ThisURI = ''/u2'', PrevURI = ''/u1'', PrevLabel = ''A'',
               NextURI = ''/u3'', NextLabel = ''B'', Weight = 0\<rparr>),
     (''/u1'', \<lparr>ThisLabel = ''A'', ThisURI = ''/u1'', PrevURI = [], PrevLabel = [],
               NextURI = ''/u2'', NextLabel = ''A'', Weight = 0\<rparr>),
     (''/u3'', \<lparr>ThisLabel = ''B'', ThisURI = ''/u3'', PrevURI = ''/u2'', PrevLabel = ''A'',
               NextURI = [], NextLabel = [], Weight = 0\<rparr>)]"
  have ok: "MakeAccessionTitleIndex example_tree = Return (Some titleIndex) None"
    unfolding titleIndex_def by (rule example_tree_index)
  have dist: "distinct (map snd (accessions example_tree))"
    unfolding acc by simp
  have bar: "\<forall>tu \<in> set (accessions example_tree). CHR ''|'' \<notin> set (snd tu)"
    unfolding acc by simp
  from title_index_links[OF ok] dist bar
  have links: "(\<forall>k nav. map_of titleIndex k = Some nav \<longrightarrow> ThisURI nav = k) \<and>
         (\<forall>i. Suc i < length (sorted_accessions example_tree) \<longrightarrow>
            (\<exists>a b. map_of titleIndex (snd (sorted_accessions example_tree ! i)) = Some a \<and>
                   map_of titleIndex (snd (sorted_accessions example_tree ! Suc i)) = Some b \<and>
                   NextURI a = ThisURI b \<and> PrevURI b = ThisURI a)) \<and>
         (\<exists>a z. map_of titleIndex (snd (hd (sorted_accessions example_tree))) = Some a \<and>
                PrevURI a = [] \<and>
                map_of titleIndex (snd (last (sorted_accessions example_tree))) = Some z \<and>
                NextURI z = [])"
    by blast
  note links = links[unfolded sa]
  from links have keyed: "\<And>k nav. map_of titleIndex k = Some nav \<Longrightarrow> ThisURI nav = k"
    by blast
  from links have adj: "\<And>i. Suc i < 3 \<Longrightarrow>
      \<exists>a b. map_of titleIndex (snd ([(''A'', ''/u1''), (''A'', ''/u2''), (''B'', ''/u3'')] ! i)) = Some a \<and>
            map_of titleIndex (snd ([(''A'', ''/u1''), (''A'', ''/u2''), (''B'', ''/u3'')] ! Suc i)) = Some b \<and>
            NextURI a = ThisURI b \<and> PrevURI b = ThisURI a"
    by simp
  from links have ends: "\<exists>a z. map_of titleIndex ''/u1'' = Some a \<and> PrevURI a = [] \<and>
      map_of titleIndex ''/u3'' = Some z \<and> NextURI z = []"
    by simp
  from adj[of 0] obtain a b where ab: "map_of titleIndex ''/u1'' = Some a"
    "map_of titleIndex ''/u2'' = Some b" "NextURI a = ThisURI b" "PrevURI b = ThisURI a"
    by auto
  from adj[of 1] ab(2) obtain c where bc: "map_of titleIndex ''/u3'' = Some c"
    "NextURI b = ThisURI c" "PrevURI c = ThisURI b"
    by auto
  from ends ab(1) bc(1) have e: "PrevURI a = []" "NextURI c = []" by auto
  from keyed[OF ab(1)] keyed[OF ab(2)] keyed[OF bc(1)] ab bc e ok
  have "MakeAccessionTitleIndex example_tree = Return (Some titleIndex) None \<and>
      map_of titleIndex ''/u1'' = Some a \<and> map_of titleIndex ''/u2'' = Some b \<and>
      map_of titleIndex ''/u3'' = Some c \<and>
      PrevURI a = [] \<and> NextURI a = ''/u2'' \<and>
      PrevURI b = ''/u1'' \<and> NextURI b = ''/u3'' \<and>
      PrevURI c = ''/u2'' \<and> NextURI c = []"
    by simp
  then have "\<exists>titleIndex a b c.
      MakeAccessionTitleIndex example_tree = Return (Some titleIndex) None \<and>
      map_of titleIndex ''/u1'' = Some a \<and> map_of titleIndex ''/u2'' = Some b \<and>
      map_of titleIndex ''/u3'' = Some c \<and>
      PrevURI a = [] \<and> NextURI a = ''/u2'' \<and>
      PrevURI b = ''/u1'' \<and> NextURI b = ''/u3'' \<and>
      PrevURI c = ''/u2'' \<and> NextURI c = []"
    by blast
  with acc sa show ?thesis by blast
qed

text \<open>
  The claim as first stated (distinct URIs only) fails when a URI contains the separator:
  the two accessions below are adjacent, and neither element is linked to the other.
\<close>

theorem title_index_links_counterexample:
  "distinct (map snd (accessions
     [(''data/1.json'', accession_document ''T1'' ''/a|b''),
      (''data/2.json'', accession_document ''T2'' ''/c'')])) \<and>
   sorted_accessions
     [(''data/1.json'', accession_document ''T1'' ''/a|b''),
      (''data/2.json'', accession_document ''T2'' ''/c'')] = [(''T1'', ''/a|b''), (''T2'', ''/c'')] \<and>
   MakeAccessionTitleIndex
     [(''data/1.json'', accession_document ''T1'' ''/a|b''),
      (''data/2.json'', accession_document ''T2'' ''/c'')] =
   Return (Some
     [(''/a|b'', \<lparr>ThisLabel = ''T1'', ThisURI = ''/a|b'', PrevURI = [], PrevLabel = [],
                 NextURI = [], NextLabel = [], Weight = 0\<rparr>),
      (''/c'', \<lparr>ThisLabel = ''T2'', ThisURI = ''/c'', PrevURI = [], PrevLabel = [],
               NextURI = [], NextLabel = [], Weight = 0\<rparr>)]) None"
proof -
  let ?tree = "[(''data/1.json'', accession_document ''T1'' ''/a|b''),
      (''data/2.json'', accession_document ''T2'' ''/c'')]"
  have acc: "accessions ?tree = [(''T1'', ''/a|b''), (''T2'', ''/c'')]"
    by (simp add: walk_defs)
  have sa: "sorted_accessions ?tree = [(''T1'', ''/a|b''), (''T2'', ''/c'')]"
    by (simp add: sorted_accessions_def acc composite_def)
  have ix: "MakeAccessionTitleIndex ?tree =
   Return (Some
     [(''/a|b'', \<lparr>ThisLabel = ''T1'', ThisURI = ''/a|b'', PrevURI = [], PrevLabel = [],
                 NextURI = [], NextLabel = [], Weight = 0\<rparr>),
      (''/c'', \<lparr>ThisLabel = ''T2'', ThisURI = ''/c'', PrevURI = [], PrevLabel = [],
               NextURI = [], NextLabel = [], Weight = 0\<rparr>)]) None"
    unfolding MakeAccessionTitleIndex_cases
    by (simp add: acc walkFn_def walk_defs index_defs)
  show ?thesis unfolding acc sa ix by simp
qed



lemma walkFn_skips:
  "\<not> HasSuffix (fst pc) ''.json'' \<or> snd pc = ReadError \<or> snd pc = SyntaxError \<Longrightarrow>
   walkFn pc st = Some st"
  by (auto simp: walkFn_def Unmarshal_projection_def new_projection_def)

lemma Walk_skips:
  "\<not> HasSuffix (fst pc) ''.json'' \<or> snd pc = ReadError \<or> snd pc = SyntaxError \<Longrightarrow>
   Walk (pc # tree) st = Walk tree st"
  by (simp add: walkFn_skips)

lemma walkFn_None:
  "(walkFn pc st = None) = (HasSuffix (fst pc) ''.json'' \<and> snd pc = Document JNull)"
proof -
  have "(walkFn pc st = None) =
          (HasSuffix (fst pc) ''.json'' \<and> snd pc \<noteq> ReadError \<and>
           snd (Unmarshal_projection (snd pc)) = None)"
    by (cases "snd pc") (simp_all add: walkFn_def Let_def split: option.splits)
  then show ?thesis by (auto simp: Unmarshal_projection_None)
qed

lemma Walk_None:
  "(Walk tree st = None) =
     (\<exists>pc \<in> set tree. HasSuffix (fst pc) ''.json'' \<and> snd pc = Document JNull)"
proof (induction tree arbitrary: st)
  case Nil
  then show ?case by simp
next
  case (Cons pc tree)
  show ?case
  proof (cases "walkFn pc st")
    case None
    then show ?thesis using walkFn_None[of pc st] by simp
  next
    case (Some st')
    with walkFn_None[of pc st] have "\<not> (HasSuffix (fst pc) ''.json'' \<and> snd pc = Document JNull)"
      by simp
    with Some Cons.IH[of st'] show ?thesis by auto
  qed
qed

lemma no_accessions_is_error:
  assumes "\<forall>pc \<in> set tree. HasSuffix (fst pc) ''.json'' \<longrightarrow> snd pc \<noteq> Document JNull"
    and "accessions tree = []"
  shows "MakeAccessionTitleIndex tree = Return None (Some ''No titles found'')"
proof -
  from assms(1) have "Walk tree ([], []) \<noteq> None" by (auto simp: Walk_None)
  with assms(2) show ?thesis unfolding MakeAccessionTitleIndex_cases by auto
qed

lemma never_empty_index:
  "MakeAccessionTitleIndex tree \<noteq> Return (Some []) None"
proof
  assume a: "MakeAccessionTitleIndex tree = Return (Some []) None"
  from index_success(1)[OF a] obtain tu where tu: "tu \<in> set (accessions tree)"
    by (cases "accessions tree") auto
  from index_has_key[OF a tu] show False by simp
qed

text \<open>
  C7. A tree with no accession record should give an error. It does when no visited
  \<^verbatim>\<open>.json\<close> file holds the literal \<^verbatim>\<open>null\<close> (lemma \<open>no_accessions_is_error\<close>), an empty map
  is never returned (\<open>never_empty_index\<close>) and the keys of a returned index are URIs of
  accession records (\<open>index_keyed\<close>). On a file that holds \<^verbatim>\<open>null\<close> the call panics instead
  of returning the error: \<^verbatim>\<open>json.Unmarshal(src, &accession)\<close> sets the pointer to nil and
  \<^verbatim>\<open>accession.JSONModel\<close> dereferences it.
\<close>

theorem null_file_panics:
  "accessions [(''data/subjects/1.json'', Document JNull)] = [] \<and>
   MakeAccessionTitleIndex [(''data/subjects/1.json'', Document JNull)] = Panic"
  by (simp add: MakeAccessionTitleIndex_def walkFn_def walk_defs)

text \<open>
  C1. A file that fails to parse should be skipped. Files that cannot be read or are not
  JSON text are (lemma \<open>Walk_skips\<close>), and the walk always goes on. After a type error,
  however, the callback only logs: the read-error branch above it returns, this one does
  not, so the partly decoded projection is still tested and recorded. Here the title is
  a number; \<^verbatim>\<open>Unmarshal\<close> reports the error and the file is indexed with an empty title.
\<close>

theorem parse_failure_recorded:
  "fst (Unmarshal_projection
     (Document (JObject [(''title'', JNumber ''5''), (''uri'', JString ''/accessions/1''),
                         (''jsonmodel_type'', JString ''accession'')]))) = True \<and>
   MakeAccessionTitleIndex
     [(''data/accessions/1.json'',
       Document (JObject [(''title'', JNumber ''5''), (''uri'', JString ''/accessions/1''),
                          (''jsonmodel_type'', JString ''accession'')]))] =
   Return (Some [(''/accessions/1'',
                  \<lparr>ThisLabel = [], ThisURI = ''/accessions/1'', PrevURI = [], PrevLabel = [],
                   NextURI = [], NextLabel = [], Weight = 0\<rparr>)]) None"
proof -
  let ?tree = "[(''data/accessions/1.json'',
       Document (JObject [(''title'', JNumber ''5''), (''uri'', JString ''/accessions/1''),
                          (''jsonmodel_type'', JString ''accession'')]))]"
  have acc: "accessions ?tree = [([], ''/accessions/1'')]"
    by (simp add: walk_defs)
  have "MakeAccessionTitleIndex ?tree =
   Return (Some [(''/accessions/1'',
                  \<lparr>ThisLabel = [], ThisURI = ''/accessions/1'', PrevURI = [], PrevLabel = [],
                   NextURI = [], NextLabel = [], Weight = 0\<rparr>)]) None"
    unfolding MakeAccessionTitleIndex_cases
    by (simp add: acc walkFn_def walk_defs index_defs)
  then show ?thesis by (simp add: walk_defs)
qed

lemma string_less_lexicographic: "string_less s t \<Longrightarrow> lexicographic s t"
proof (induction s t rule: string_less.induct)
  case (1 s)
  then show ?case by simp
next
  case (2 b t)
  then show ?case by (simp add: lexicographic_def)
next
  case (3 a s b t)
  show ?case
  proof (cases "(of_char a :: nat) < of_char b")
    case True
    then have "a # s = [] @ a # s \<and> b # t = [] @ b # t \<and> (of_char a :: nat) < of_char b"
      by simp
    then show ?thesis unfolding lexicographic_def by blast
  next
    case False
    with 3 have ab: "a = b" and "lexicographic s t" by auto
    then consider r where "r \<noteq> []" "t = s @ r"
      | p c d s' t' where "s = p @ c # s'" "t = p @ d # t'" "(of_char c :: nat) < of_char d"
      unfolding lexicographic_def by blast
    then show ?thesis
    proof cases
      case 1
      with ab have "r \<noteq> [] \<and> b # t = (a # s) @ r" by simp
      then show ?thesis unfolding lexicographic_def by blast
    next
      case 2
      with ab have "a # s = (a # p) @ c # s' \<and> b # t = (a # p) @ d # t' \<and>
                    (of_char c :: nat) < of_char d" by simp
      then show ?thesis unfolding lexicographic_def by blast
    qed
  qed
qed

lemma lexicographic_string_less: "lexicographic s t \<Longrightarrow> string_less s t"
proof -
  assume "lexicographic s t"
  then consider r where "r \<noteq> []" "t = s @ r"
      | p c d s' t' where "s = p @ c # s'" "t = p @ d # t'" "(of_char c :: nat) < of_char d"
      unfolding lexicographic_def by blast
  then show ?thesis
  proof cases
    case 1
    then obtain x xs where "r = x # xs" by (cases r) auto
    with 1 string_less_append_same[of s "[]" r] show ?thesis by simp
  next
    case 2
    then show ?thesis by (simp add: string_less_append_same)
  qed
qed

lemma string_less_iff: "string_less s t = lexicographic s t"
  using string_less_lexicographic lexicographic_string_less by blast

text \<open>
  C3. \<^verbatim>\<open>MakeAccessionTitleIndex\<close> links the recorded accessions in the order of their
  composite keys \<^verbatim>\<open>Title|URI\<close>: that order is a rearrangement of the recorded accessions,
  ascending in the byte-wise lexicographic order of the keys, so that accessions with the
  same title are ordered by their URIs. The accessions titled A, A, B with the URIs /u2,
  /u1, /u3 come out as (A,/u1), (A,/u2), (B,/u3).
\<close>

theorem title_order:
  "MakeAccessionTitleIndex tree =
     (case Walk tree ([], []) of
        None \<Rightarrow> Panic
      | Some st \<Rightarrow>
          if accessions tree = [] then Return None (Some ''No titles found'')
          else Return (Some (link_titles (map composite (sorted_accessions tree)) (fst st)))
                 None) \<and>
   mset (sorted_accessions tree) = mset (accessions tree) \<and>
   sorted_wrt (\<lambda>x y. string_le (composite x) (composite y)) (sorted_accessions tree) \<and>
   string_le s t = (s = t \<or> lexicographic s t) \<and>
   string_le (composite (title, u1)) (composite (title, u2)) = string_le u1 u2 \<and>
   sorted_accessions example_tree = [(''A'', ''/u1''), (''A'', ''/u2''), (''B'', ''/u3'')]"
proof -
  have 1: "MakeAccessionTitleIndex tree =
     (case Walk tree ([], []) of
        None \<Rightarrow> Panic
      | Some st \<Rightarrow>
          if accessions tree = [] then Return None (Some ''No titles found'')
          else Return (Some (link_titles (map composite (sorted_accessions tree)) (fst st)))
                 None)"
  proof (cases "Walk tree ([], [])")
    case None
    then show ?thesis by (simp add: MakeAccessionTitleIndex_def)
  next
    case (Some st)
    from Walk_accessions[OF Some] Some show ?thesis
      by (simp add: MakeAccessionTitleIndex_cases sorted_accessions_props(2))
  qed
  have 4: "string_le s t = (s = t \<or> lexicographic s t)"
    unfolding string_le_def string_less_iff[symmetric]
    using string_less_total string_less_irrefl string_less_trans by blast
  have 5: "string_le (composite (title, u1)) (composite (title, u2)) = string_le u1 u2"
    using string_less_append_same[of "title @ ''|''" u2 u1]
    by (simp add: string_le_def composite_def)
  from 1 sorted_accessions_props(1,3)[of tree] 4 5 example_tree_sorted
  show ?thesis by blast
qed

theorem title_order_witness:
  "MakeAccessionTitleIndex example_tree =
     Return (Some (link_titles [''A|/u1'', ''A|/u2'', ''B|/u3'']
       [(''/u2'', new_NavElementView\<lparr>ThisLabel := ''A'', ThisURI := ''/u2''\<rparr>),
        (''/u1'', new_NavElementView\<lparr>ThisLabel := ''A'', ThisURI := ''/u1''\<rparr>),
        (''/u3'', new_NavElementView\<lparr>ThisLabel := ''B'', ThisURI := ''/u3''\<rparr>)])) None \<and>
   string_le ''A|/u1'' ''A|/u2'' \<and> string_le ''A|/u2'' ''B|/u3''"
proof -
  have w: "Walk example_tree ([], []) =
             Some ([(''/u2'', new_NavElementView\<lparr>ThisLabel := ''A'', ThisURI := ''/u2''\<rparr>),
                    (''/u1'', new_NavElementView\<lparr>ThisLabel := ''A'', ThisURI := ''/u1''\<rparr>),
                    (''/u3'', new_NavElementView\<lparr>ThisLabel := ''B'', ThisURI := ''/u3''\<rparr>)],
                   [''A|/u2'', ''A|/u1'', ''B|/u3''])"
    by (simp add: example_tree_def walkFn_def walk_defs)
  from title_order[of example_tree "''A|/u1''" "''A|/u2''" "''A''" "''/u1''" "''/u2''"]
  have 1: "MakeAccessionTitleIndex example_tree =
     (case Walk example_tree ([], []) of
        None \<Rightarrow> Panic
      | Some st \<Rightarrow>
          if accessions example_tree = [] then Return None (Some ''No titles found'')
          else Return (Some (link_titles (map composite (sorted_accessions example_tree)) (fst st)))
                 None)"
    and 2: "sorted_wrt (\<lambda>x y. string_le (composite x) (composite y)) (sorted_accessions example_tree)"
    by blast+
  from 1 have "MakeAccessionTitleIndex example_tree =
     Return (Some (link_titles [''A|/u1'', ''A|/u2'', ''B|/u3'']
       [(''/u2'', new_NavElementView\<lparr>ThisLabel := ''A'', ThisURI := ''/u2''\<rparr>),
        (''/u1'', new_NavElementView\<lparr>ThisLabel := ''A'', ThisURI := ''/u1''\<rparr>),
        (''/u3'', new_NavElementView\<lparr>ThisLabel := ''B'', ThisURI := ''/u3''\<rparr>)])) None"
    unfolding w example_tree_sorted example_tree_accessions by (simp add: composite_def)
  moreover from 2 have "string_le ''A|/u1'' ''A|/u2'' \<and> string_le ''A|/u2'' ''B|/u3''"
    unfolding example_tree_sorted by (simp add: composite_def)
  ultimately show ?thesis by blast
qed

section \<open>Properties of the record loaders\<close>

lemma unreadable_directory:
  "MakeSubjectList dname (Inl err) =
     Return [] (Some (Cant @ '' read subjects from '' @ dname @ '', '' @ err))"
  "MakeSubjectMap dname (Inl err) =
     Return None (Some (Cant @ '' read subjects from '' @ dname @ '', '' @ err))"
  "MakeDigitalObjectMap dname (Inl err) =
     Return None (Some (Cant @ '' read Digital Objects from '' @ dname @ '', '' @ err))"
  by (simp_all add: MakeSubjectList_def MakeSubjectMap_def MakeDigitalObjectMap_def)

lemma MakeSubjectList_first_offending:
  assumes "\<forall>e \<in> set pre. \<not> offending (snd e)"
  shows "MakeSubjectList_range (pre @ (fname, Unreadable err) # post) subjects =
           Return [] (Some (Cant @ '' read '' @ fname @ '', '' @ err))"
    and "MakeSubjectList_range (pre @ (fname, Unparsable err) # post) subjects =
           Return [] (Some (Cant @ '' parse subject '' @ fname @ '', '' @ err))"
  using assms
  by (induction pre subjects rule: MakeSubjectList_range.induct)
    (auto simp: offending_def split: entry.splits)

lemma MakeSubjectMap_first_offending:
  assumes "\<forall>e \<in> set pre. \<exists>r. snd e = Decoded r"
  shows "MakeSubjectMap_range (pre @ (fname, Unreadable err) # post) subjects =
           Return None (Some (Cant @ '' read '' @ fname @ '', '' @ err))"
    and "MakeSubjectMap_range (pre @ (fname, Unparsable err) # post) subjects =
           Return None (Some (Cant @ '' parse subject '' @ fname @ '', '' @ err))"
    and "MakeSubjectMap_range (pre @ (fname, Null) # post) subjects = Panic"
  using assms
  by (induction pre subjects rule: MakeSubjectMap_range.induct) auto

lemma MakeDigitalObjectMap_first_offending:
  assumes "\<forall>e \<in> set pre. \<exists>r. snd e = Decoded r"
  shows "MakeDigitalObjectMap_range (pre @ (fname, Unreadable err) # post) digitalObjects =
           Return None (Some (Cant @ '' read '' @ fname @ '', '' @ err))"
    and "MakeDigitalObjectMap_range (pre @ (fname, Unparsable err) # post) digitalObjects =
           Return None (Some (Cant @ '' parse subject '' @ fname @ '', '' @ err))"
    and "MakeDigitalObjectMap_range (pre @ (fname, Null) # post) digitalObjects = Panic"
  using assms
  by (induction pre digitalObjects rule: MakeDigitalObjectMap_range.induct) auto

text \<open>
  C8. A listing with an unreadable or unparsable file should make the whole call fail
  with an error that names the file and the cause, and return nothing. It does for an
  unreadable directory (\<open>unreadable_directory\<close>), for \<^verbatim>\<open>MakeSubjectList\<close> always
  (\<open>MakeSubjectList_first_offending\<close>), and for the two map builders when the files before
  the first such file all decode to a record (\<open>MakeSubjectMap_first_offending\<close>,
  \<open>MakeDigitalObjectMap_first_offending\<close>). When an earlier file holds the literal \<^verbatim>\<open>null\<close>
  the map builders panic instead: \<^verbatim>\<open>json.Unmarshal(src, &subject)\<close> sets the pointer to
  nil and \<^verbatim>\<open>subject.URI\<close> dereferences it before the bad file is reached.
\<close>

theorem null_before_bad_file_panics:
  "MakeSubjectMap ''data/subjects''
     (Inr [(''data/subjects/1.json'', Null),
           (''data/subjects/2.json'', Unreadable ''permission denied'')]) = Panic \<and>
   MakeDigitalObjectMap ''data/digital_objects''
     (Inr [(''data/digital_objects/1.json'', Null),
           (''data/digital_objects/2.json'', Unparsable ''unexpected end of JSON input'')]) =
   Panic \<and>
   MakeSubjectList ''data/subjects''
     (Inr [(''data/subjects/1.json'', Null),
           (''data/subjects/2.json'', Unreadable ''permission denied'')]) =
   Return [] (Some (Cant @ '' read data/subjects/2.json, permission denied''))"
  by (simp add: MakeSubjectMap_def MakeDigitalObjectMap_def MakeSubjectList_def)

end
